theory Spec2Isabelle
  imports Main "HOL-Library.Sublist"
begin

section \<open>JavaScript values and exceptions\<close>

text \<open>
  The authentication client of \<^verbatim>\<open>packages/blitz-auth/src/client/index.tsx\<close> runs in a
  browser tab. Everything it throws is a value of \<open>error\<close>; a function that can throw
  returns \<open>error + 'a\<close> (\<open>Inl\<close> the exception), together with the state of the tab
  where it has side effects.
\<close>

datatype error =
    Error string
  | InvalidCharacterError
  | TypeError
  | StorageError
  | AuthenticationError

text \<open>
  The result of \<^verbatim>\<open>JSON.parse\<close>. Numbers are the integers; text is a list of bytes,
  as \<open>string\<close> has it. An object is the list of its members in the order of the text.
\<close>

datatype json =
    JNull
  | JBool bool
  | JNum int
  | JStr string
  | JArr "json list"
  | JObj "(string \<times> json) list"

text \<open>\<^verbatim>\<open>const emptyPublicData: EmptyPublicData = {userId: null, role: null}\<close>\<close>

definition emptyPublicData :: json where
  "emptyPublicData = JObj [(''userId'', JNull), (''role'', JNull)]"



section \<open>Library functions the client calls\<close>

subsection \<open>Decimal numerals: \<^verbatim>\<open>Number.prototype.toString\<close> on a non-negative integer\<close>

definition digit_char :: "nat \<Rightarrow> char" where
  "digit_char d = char_of (48 + d)"

fun toString :: "nat \<Rightarrow> string" where
  "toString n = (if n < 10 then [digit_char n] else toString (n div 10) @ [digit_char (n mod 10)])"

declare toString.simps [simp del]

definition is_digit :: "char \<Rightarrow> bool" where
  "is_digit c = (48 \<le> (of_char c :: nat) \<and> (of_char c :: nat) \<le> 57)"

definition digit_value :: "char \<Rightarrow> nat" where
  "digit_value c = of_char c - 48"

subsection \<open>Base64 (\<^verbatim>\<open>fromBase64\<close> of b64-lite, and the encoder of the server)\<close>

definition b64_value :: "char \<Rightarrow> nat option" where
  "b64_value c =
     (let n = (of_char c :: nat) in
      if 65 \<le> n \<and> n \<le> 90 then Some (n - 65)
      else if 97 \<le> n \<and> n \<le> 122 then Some (n - 71)
      else if 48 \<le> n \<and> n \<le> 57 then Some (n + 4)
      else if n = 43 then Some 62
      else if n = 47 then Some 63
      else None)"

definition b64_char :: "nat \<Rightarrow> char" where
  "b64_char n =
     (if n < 26 then char_of (n + 65)
      else if n < 52 then char_of (n + 71)
      else if n < 62 then char_of (n - 4)
      else if n = 62 then CHR ''+''
      else CHR ''/'')"

text \<open>
  \<^verbatim>\<open>fromBase64(token)\<close>: groups of four characters give three bytes; the last group may
  be padded with \<^verbatim>\<open>=\<close>. \<open>None\<close> is the exception of a text that is not base64. The
  padding is required, and the bytes are the text: the decoding of UTF-8 that b64-lite
  does on the bytes, and its exception, are not modelled.
\<close>

fun fromBase64 :: "string \<Rightarrow> string option" where
  "fromBase64 [] = Some []"
| "fromBase64 (a # b # c # d # rest) =
     (case (b64_value a, b64_value b) of
        (Some x, Some y) \<Rightarrow>
          (if rest = [] \<and> c = CHR ''='' \<and> d = CHR ''='' then
             Some [char_of (x * 4 + y div 16)]
           else
             (case b64_value c of
                None \<Rightarrow> None
              | Some z \<Rightarrow>
                  (if rest = [] \<and> d = CHR ''='' then
                     Some [char_of (x * 4 + y div 16), char_of (y mod 16 * 16 + z div 4)]
                   else
                     (case b64_value d of
                        None \<Rightarrow> None
                      | Some w \<Rightarrow>
                          (case fromBase64 rest of
                             None \<Rightarrow> None
                           | Some bytes \<Rightarrow>
                               Some (char_of (x * 4 + y div 16)
                                   # char_of (y mod 16 * 16 + z div 4)
                                   # char_of (z mod 4 * 64 + w)
                                   # bytes))))))
      | _ \<Rightarrow> None)"
| "fromBase64 _ = None"

text \<open>
  Modelled from the spec: the server's encoder of the token, \<^verbatim>\<open>base64(JSON(PublicData))\<close>;
  the server's code is not among the sources. Three bytes give four characters of six
  bits each, the last group is padded with \<^verbatim>\<open>=\<close>.
\<close>

fun toBase64 :: "string \<Rightarrow> string" where
  "toBase64 [] = []"
| "toBase64 [a] =
     [b64_char (of_char a div 4), b64_char (of_char a mod 4 * 16), CHR ''='', CHR ''='']"
| "toBase64 [a, b] =
     [b64_char (of_char a div 4), b64_char (of_char a mod 4 * 16 + of_char b div 16),
      b64_char (of_char b mod 16 * 4), CHR ''='']"
| "toBase64 (a # b # c # rest) =
     b64_char (of_char a div 4)
       # b64_char (of_char a mod 4 * 16 + of_char b div 16)
       # b64_char (of_char b mod 16 * 4 + of_char c div 64)
       # b64_char (of_char c mod 64)
       # toBase64 rest"

subsection \<open>\<^verbatim>\<open>JSON.stringify\<close> and \<^verbatim>\<open>JSON.parse\<close>\<close>

definition hex_char :: "nat \<Rightarrow> char" where
  "hex_char d = (if d < 10 then char_of (48 + d) else char_of (87 + d))"

definition hex_value :: "char \<Rightarrow> nat option" where
  "hex_value c =
     (let n = (of_char c :: nat) in
      if 48 \<le> n \<and> n \<le> 57 then Some (n - 48)
      else if 97 \<le> n \<and> n \<le> 102 then Some (n - 87)
      else if 65 \<le> n \<and> n \<le> 70 then Some (n - 55)
      else None)"

text \<open>One character of a string, as \<^verbatim>\<open>JSON.stringify\<close> writes it between the quotes.\<close>

definition escape_char :: "char \<Rightarrow> string" where
  "escape_char c =
     (if c = CHR ''\"'' then [CHR 0x5C, CHR ''\"'']
      else if c = CHR 0x5C then [CHR 0x5C, CHR 0x5C]
      else if c = CHR 0x08 then [CHR 0x5C, CHR ''b'']
      else if c = CHR 0x0C then [CHR 0x5C, CHR ''f'']
      else if c = CHR 0x0A then [CHR 0x5C, CHR ''n'']
      else if c = CHR 0x0D then [CHR 0x5C, CHR ''r'']
      else if c = CHR 0x09 then [CHR 0x5C, CHR ''t'']
      else if (of_char c :: nat) < 32 then
        [CHR 0x5C, CHR ''u'', CHR ''0'', CHR ''0'',
         hex_char (of_char c div 16), hex_char (of_char c mod 16)]
      else [c])"

definition quote :: "string \<Rightarrow> string" where
  "quote s = CHR ''\"'' # concat (map escape_char s) @ [CHR ''\"'']"

definition show_int :: "int \<Rightarrow> string" where
  "show_int i = (if i < 0 then CHR ''-'' # toString (nat (- i)) else toString (nat i))"

fun JSON_stringify :: "json \<Rightarrow> string"
  and stringify_elements :: "json list \<Rightarrow> string"
  and stringify_members :: "(string \<times> json) list \<Rightarrow> string" where
  "JSON_stringify JNull = ''null''"
| "JSON_stringify (JBool b) = (if b then ''true'' else ''false'')"
| "JSON_stringify (JNum i) = show_int i"
| "JSON_stringify (JStr s) = quote s"
| "JSON_stringify (JArr xs) = ''['' @ stringify_elements xs @ '']''"
| "JSON_stringify (JObj ms) = ''{'' @ stringify_members ms @ ''}''"
| "stringify_elements [] = []"
| "stringify_elements [x] = JSON_stringify x"
| "stringify_elements (x # y # ys) = JSON_stringify x @ '','' @ stringify_elements (y # ys)"
| "stringify_members [] = []"
| "stringify_members [(k, v)] = quote k @ '':'' @ JSON_stringify v"
| "stringify_members ((k, v) # m # ms) =
     quote k @ '':'' @ JSON_stringify v @ '','' @ stringify_members (m # ms)"

definition is_ws :: "char \<Rightarrow> bool" where
  "is_ws c = (c = CHR '' '' \<or> c = CHR 0x09 \<or> c = CHR 0x0A \<or> c = CHR 0x0D)"

definition skip_ws :: "string \<Rightarrow> string" where
  "skip_ws cs = dropWhile is_ws cs"

text \<open>The character after a backslash, other than \<^verbatim>\<open>u\<close>.\<close>

definition unescape :: "char \<Rightarrow> char option" where
  "unescape e =
     (if e = CHR ''\"'' then Some (CHR ''\"'')
      else if e = CHR 0x5C then Some (CHR 0x5C)
      else if e = CHR ''/'' then Some (CHR ''/'')
      else if e = CHR ''b'' then Some (CHR 0x08)
      else if e = CHR ''f'' then Some (CHR 0x0C)
      else if e = CHR ''n'' then Some (CHR 0x0A)
      else if e = CHR ''r'' then Some (CHR 0x0D)
      else if e = CHR ''t'' then Some (CHR 0x09)
      else None)"

definition hex4 :: "char \<Rightarrow> char \<Rightarrow> char \<Rightarrow> char \<Rightarrow> nat option" where
  "hex4 a b c d =
     (case (hex_value a, hex_value b, hex_value c, hex_value d) of
        (Some x, Some y, Some z, Some w) \<Rightarrow> Some (x * 4096 + y * 256 + z * 16 + w)
      | _ \<Rightarrow> None)"

text \<open>
  The text of a string after its opening quote, up to the closing quote. A raw control
  character is a syntax error. A \<^verbatim>\<open>\u\<close> escape is read when it names an ASCII character.
\<close>

fun parse_string :: "string \<Rightarrow> (string \<times> string) option" where
  "parse_string [] = None"
| "parse_string (c # cs) =
     (if c = CHR ''\"'' then Some ([], cs)
      else if c = CHR 0x5C then
        (case cs of
           [] \<Rightarrow> None
         | e # cs' \<Rightarrow>
             (if e = CHR ''u'' then
                (case cs' of
                   h1 # h2 # h3 # h4 # cs'' \<Rightarrow>
                     (case hex4 h1 h2 h3 h4 of
                        None \<Rightarrow> None
                      | Some n \<Rightarrow>
                          (if n < 128 then
                             (case parse_string cs'' of
                                None \<Rightarrow> None
                              | Some (s, rest) \<Rightarrow> Some (char_of n # s, rest))
                           else None))
                 | _ \<Rightarrow> None)
              else
                (case unescape e of
                   None \<Rightarrow> None
                 | Some ch \<Rightarrow>
                     (case parse_string cs' of
                        None \<Rightarrow> None
                      | Some (s, rest) \<Rightarrow> Some (ch # s, rest)))))
      else if (of_char c :: nat) < 32 then None
      else
        (case parse_string cs of
           None \<Rightarrow> None
         | Some (s, rest) \<Rightarrow> Some (c # s, rest)))"

fun parse_digits :: "nat \<Rightarrow> string \<Rightarrow> nat \<times> string" where
  "parse_digits acc [] = (acc, [])"
| "parse_digits acc (c # cs) =
     (if is_digit c then parse_digits (acc * 10 + digit_value c) cs else (acc, c # cs))"

text \<open>The number the digits \<open>ds\<close> denote after the digits read into \<open>acc\<close>.\<close>

definition digits_value :: "nat \<Rightarrow> string \<Rightarrow> nat" where
  "digits_value acc ds = foldl (\<lambda>a c. a * 10 + digit_value c) acc ds"

text \<open>
  A number without its sign: \<^verbatim>\<open>0\<close>, or digits that do not start with \<^verbatim>\<open>0\<close>. A
  fraction or an exponent is not an integer: such numerals are not read.
\<close>

definition parse_nat :: "string \<Rightarrow> (nat \<times> string) option" where
  "parse_nat cs =
     (case cs of
        [] \<Rightarrow> None
      | c # cs' \<Rightarrow>
          (if \<not> is_digit c then None
           else
             (case (if c = CHR ''0'' then (0, cs') else parse_digits 0 cs) of
                (n, rest) \<Rightarrow>
                  (case rest of
                     [] \<Rightarrow> Some (n, rest)
                   | r # _ \<Rightarrow>
                       (if r = CHR ''.'' \<or> r = CHR ''e'' \<or> r = CHR ''E'' then None
                        else Some (n, rest))))))"

text \<open>What may follow a number: the end of the text, or a character that does not extend it.\<close>

definition number_end :: "string \<Rightarrow> bool" where
  "number_end rest =
     (case rest of
        [] \<Rightarrow> True
      | c # _ \<Rightarrow> \<not> is_digit c \<and> c \<noteq> CHR ''.'' \<and> c \<noteq> CHR ''e'' \<and> c \<noteq> CHR ''E'')"

text \<open>
  Recursive descent. The first argument bounds the number of nested calls; \<open>JSON_parse\<close>
  starts with more than any text of the given length can use.
\<close>

fun parse_value :: "nat \<Rightarrow> string \<Rightarrow> (json \<times> string) option"
  and parse_elements :: "nat \<Rightarrow> string \<Rightarrow> (json list \<times> string) option"
  and parse_members :: "nat \<Rightarrow> string \<Rightarrow> ((string \<times> json) list \<times> string) option" where
  "parse_value 0 cs = None"
| "parse_value (Suc fuel) cs =
     (case skip_ws cs of
        [] \<Rightarrow> None
      | c # r \<Rightarrow>
          (if c = CHR ''n'' then
             (case r of
                u # l # l' # r' \<Rightarrow>
                  (if [u, l, l'] = ''ull'' then Some (JNull, r') else None)
              | _ \<Rightarrow> None)
           else if c = CHR ''t'' then
             (case r of
                x # y # z # r' \<Rightarrow>
                  (if [x, y, z] = ''rue'' then Some (JBool True, r') else None)
              | _ \<Rightarrow> None)
           else if c = CHR ''f'' then
             (case r of
                x # y # z # w # r' \<Rightarrow>
                  (if [x, y, z, w] = ''alse'' then Some (JBool False, r') else None)
              | _ \<Rightarrow> None)
           else if c = CHR ''\"'' then
             (case parse_string r of
                None \<Rightarrow> None
              | Some (s, r') \<Rightarrow> Some (JStr s, r'))
           else if c = CHR ''['' then
             (case skip_ws r of
                [] \<Rightarrow> None
              | c' # r' \<Rightarrow>
                  (if c' = CHR '']'' then Some (JArr [], r')
                   else
                     (case parse_elements fuel r of
                        None \<Rightarrow> None
                      | Some (xs, r'') \<Rightarrow> Some (JArr xs, r''))))
           else if c = CHR ''{'' then
             (case skip_ws r of
                [] \<Rightarrow> None
              | c' # r' \<Rightarrow>
                  (if c' = CHR ''}'' then Some (JObj [], r')
                   else
                     (case parse_members fuel r of
                        None \<Rightarrow> None
                      | Some (ms, r'') \<Rightarrow> Some (JObj ms, r''))))
           else if c = CHR ''-'' then
             (case parse_nat r of
                None \<Rightarrow> None
              | Some (n, r') \<Rightarrow> Some (JNum (- int n), r'))
           else
             (case parse_nat (c # r) of
                None \<Rightarrow> None
              | Some (n, r') \<Rightarrow> Some (JNum (int n), r'))))"
| "parse_elements 0 cs = None"
| "parse_elements (Suc fuel) cs =
     (case parse_value fuel cs of
        None \<Rightarrow> None
      | Some (x, r) \<Rightarrow>
          (case skip_ws r of
             [] \<Rightarrow> None
           | c # r' \<Rightarrow>
               (if c = CHR '']'' then Some ([x], r')
                else if c = CHR '','' then
                  (case parse_elements fuel r' of
                     None \<Rightarrow> None
                   | Some (xs, r'') \<Rightarrow> Some (x # xs, r''))
                else None)))"
| "parse_members 0 cs = None"
| "parse_members (Suc fuel) cs =
     (case skip_ws cs of
        [] \<Rightarrow> None
      | q # r \<Rightarrow>
          (if q \<noteq> CHR ''\"'' then None
           else
             (case parse_string r of
                None \<Rightarrow> None
              | Some (k, r1) \<Rightarrow>
                  (case skip_ws r1 of
                     [] \<Rightarrow> None
                   | colon # r2 \<Rightarrow>
                       (if colon \<noteq> CHR '':'' then None
                        else
                          (case parse_value fuel r2 of
                             None \<Rightarrow> None
                           | Some (v, r3) \<Rightarrow>
                               (case skip_ws r3 of
                                  [] \<Rightarrow> None
                                | c # r4 \<Rightarrow>
                                    (if c = CHR ''}'' then Some ([(k, v)], r4)
                                     else if c = CHR '','' then
                                       (case parse_members fuel r4 of
                                          None \<Rightarrow> None
                                        | Some (ms, r5) \<Rightarrow> Some ((k, v) # ms, r5))
                                     else None))))))))"

definition JSON_parse :: "string \<Rightarrow> json option" where
  "JSON_parse text =
     (case parse_value (2 * length text + 2) text of
        None \<Rightarrow> None
      | Some (v, rest) \<Rightarrow> (if skip_ws rest = [] then Some v else None))"

section \<open>The browser tab\<close>

text \<open>
  What the client reads and writes: the cookies of the document, \<^verbatim>\<open>localStorage\<close>
  (\<open>None\<close> when the storage is not available: then every operation on it throws), the
  lines written by \<^verbatim>\<open>console.error\<close>, and the observable of the store with its
  subscribers, in the order they subscribed, and every value delivered to one of them.
\<close>

record browser =
  cookies :: "string \<rightharpoonup> string"
  localStorage :: "(string \<rightharpoonup> string) option"
  console :: "string list"
  subscribers :: "nat list"
  delivered :: "(nat \<times> json) list"

text \<open>
  The names of \<^verbatim>\<open>../shared\<close>, which is not among the sources: the two cookies, their
  mirrors in \<^verbatim>\<open>localStorage\<close> and the prefix of the key that signals a change.
\<close>

record names =
  COOKIE_PUBLIC_DATA_TOKEN :: string
  COOKIE_CSRF_TOKEN :: string
  LOCALSTORAGE_PUBLIC_DATA_TOKEN :: string
  LOCALSTORAGE_CSRF_TOKEN :: string
  LOCALSTORAGE_PREFIX :: string

text \<open>
  Modelled from the spec: \<^verbatim>\<open>readCookie\<close> and \<^verbatim>\<open>deleteCookie\<close> of the \<^verbatim>\<open>blitz\<close>
  package, which is not among the sources: the value of the named cookie, or absent;
  afterwards the named cookie is absent.
\<close>

definition readCookie :: "string \<Rightarrow> browser \<Rightarrow> string option" where
  "readCookie name s = cookies s name"

definition deleteCookie :: "string \<Rightarrow> browser \<Rightarrow> browser" where
  "deleteCookie name s = s\<lparr>cookies := (cookies s)(name := None)\<rparr>"

definition setItem :: "string \<Rightarrow> string \<Rightarrow> browser \<Rightarrow> error + browser" where
  "setItem key v s =
     (case localStorage s of
        None \<Rightarrow> Inl StorageError
      | Some m \<Rightarrow> Inr (s\<lparr>localStorage := Some (m(key \<mapsto> v))\<rparr>))"

definition getItem :: "string \<Rightarrow> browser \<Rightarrow> error + string option" where
  "getItem key s =
     (case localStorage s of
        None \<Rightarrow> Inl StorageError
      | Some m \<Rightarrow> Inr (m key))"

definition removeItem :: "string \<Rightarrow> browser \<Rightarrow> error + browser" where
  "removeItem key s =
     (case localStorage s of
        None \<Rightarrow> Inl StorageError
      | Some m \<Rightarrow> Inr (s\<lparr>localStorage := Some (m(key := None))\<rparr>))"

definition console_error :: "string \<Rightarrow> browser \<Rightarrow> browser" where
  "console_error msg s = s\<lparr>console := console s @ [msg]\<rparr>"

text \<open>
  \<^verbatim>\<open>observable.next(v)\<close> of bad-behavior: every subscriber is called once with \<open>v\<close>, in
  the order of subscription.
\<close>

definition observable_next :: "json \<Rightarrow> browser \<Rightarrow> browser" where
  "observable_next v s = s\<lparr>delivered := delivered s @ map (\<lambda>sub. (sub, v)) (subscribers s)\<rparr>"

section \<open>The token codec\<close>

text \<open>
  \<^verbatim>\<open>parsePublicDataToken\<close>. \<^verbatim>\<open>assert\<close> of the \<^verbatim>\<open>blitz\<close> package throws an Error with
  the given message when its condition is falsy; the empty string is the falsy token.
  The result is the \<^verbatim>\<open>publicData\<close> field of the object the source returns.
\<close>

definition parsePublicDataToken :: "string \<Rightarrow> error + json" where
  "parsePublicDataToken token =
     (if token = [] then Inl (Error ''[parsePublicDataToken] Failed: token is empty'')
      else
        (case fromBase64 token of
           None \<Rightarrow> Inl InvalidCharacterError
         | Some publicDataStr \<Rightarrow>
             (case JSON_parse publicDataStr of
                Some publicData \<Rightarrow> Inr publicData
              | None \<Rightarrow>
                  Inl (Error (''[parsePublicDataToken] Failed to parse publicDataStr: ''
                         @ publicDataStr)))))"

text \<open>
  The local \<^verbatim>\<open>publicDataStr\<close> of \<^verbatim>\<open>parsePublicDataToken\<close> when the call ends. The source
  assigns it once, from \<^verbatim>\<open>fromBase64(token)\<close>, after the assertion: it has no value
  (\<open>None\<close>) where the assertion fails or \<^verbatim>\<open>fromBase64\<close> throws.
\<close>

definition publicDataStr :: "string \<Rightarrow> string option" where
  "publicDataStr token = (if token = [] then None else fromBase64 token)"

text \<open>Modelled from the spec: the token the server issues for a record of public data.\<close>

definition encodePublicData :: "json \<Rightarrow> string" where
  "encodePublicData pd = toBase64 (JSON_stringify pd)"

section \<open>PublicDataStore\<close>

text \<open>\<^verbatim>\<open>private eventKey = `${LOCALSTORAGE_PREFIX}publicDataUpdated`\<close>\<close>

definition eventKey :: "names \<Rightarrow> string" where
  "eventKey N = LOCALSTORAGE_PREFIX N @ ''publicDataUpdated''"

text \<open>
  \<^verbatim>\<open>getToken\<close>: the whole body is inside \<^verbatim>\<open>try\<close>; the handler logs and returns
  \<^verbatim>\<open>undefined\<close>. \<open>None\<close> is \<^verbatim>\<open>null\<close> or \<^verbatim>\<open>undefined\<close>. The empty string is falsy.
\<close>

definition getToken :: "names \<Rightarrow> browser \<Rightarrow> string option \<times> browser" where
  "getToken N s =
     (let fallback =
        (case getItem (LOCALSTORAGE_PUBLIC_DATA_TOKEN N) s of
           Inl err \<Rightarrow> (None, console_error ''LocalStorage is not available'' s)
         | Inr stored \<Rightarrow> (stored, s))
      in
      case readCookie (COOKIE_PUBLIC_DATA_TOKEN N) s of
        None \<Rightarrow> fallback
      | Some cookieValue \<Rightarrow>
          (if cookieValue \<noteq> [] then
             (case setItem (LOCALSTORAGE_PUBLIC_DATA_TOKEN N) cookieValue s of
                Inl err \<Rightarrow> (None, console_error ''LocalStorage is not available'' s)
              | Inr s' \<Rightarrow> (Some cookieValue, s'))
           else fallback))"

definition getData :: "names \<Rightarrow> browser \<Rightarrow> (error + json) \<times> browser" where
  "getData N s =
     (case getToken N s of
        (None, s') \<Rightarrow> (Inr emptyPublicData, s')
      | (Some publicDataToken, s') \<Rightarrow>
          (if publicDataToken = [] then (Inr emptyPublicData, s')
           else (parsePublicDataToken publicDataToken, s')))"

text \<open>
  \<^verbatim>\<open>updateState(value?, opts?)\<close>. \<open>now\<close> is what \<^verbatim>\<open>Date.now()\<close> returns during the call;
  \<open>opts\<close> is \<open>None\<close> when the argument is left out, else the \<^verbatim>\<open>suppressEvent\<close> flag.
\<close>

definition updateState ::
  "names \<Rightarrow> nat \<Rightarrow> json option \<Rightarrow> bool option \<Rightarrow> browser \<Rightarrow> (error + unit) \<times> browser" where
  "updateState N now v opts s =
     (let s1 =
        (if opts \<noteq> Some True then
           (case setItem (eventKey N) (toString now) s of
              Inl err \<Rightarrow> console_error ''LocalStorage is not available'' s
            | Inr s' \<Rightarrow> s')
         else s)
      in
      case v of
        Some x \<Rightarrow> (Inr (), observable_next x s1)
      | None \<Rightarrow>
          (case getData N s1 of
             (Inl err, s2) \<Rightarrow> (Inl err, s2)
           | (Inr d, s2) \<Rightarrow> (Inr (), observable_next d s2)))"

definition clear :: "names \<Rightarrow> nat \<Rightarrow> browser \<Rightarrow> (error + unit) \<times> browser" where
  "clear N now s =
     (let s1 = deleteCookie (COOKIE_PUBLIC_DATA_TOKEN N) s;
          s2 = (case removeItem (LOCALSTORAGE_PUBLIC_DATA_TOKEN N) s1 of
                  Inl err \<Rightarrow> console_error ''LocalStorage is not available'' s1
                | Inr s' \<Rightarrow> s')
      in updateState N now (Some emptyPublicData) None s2)"

section \<open>The anti-CSRF token\<close>

definition backupAntiCSRFTokenToLocalStorage :: "names \<Rightarrow> browser \<Rightarrow> (error + unit) \<times> browser" where
  "backupAntiCSRFTokenToLocalStorage N s =
     (case readCookie (COOKIE_CSRF_TOKEN N) s of
        None \<Rightarrow> (Inr (), s)
      | Some cookieValue \<Rightarrow>
          (if cookieValue \<noteq> [] then
             (case setItem (LOCALSTORAGE_CSRF_TOKEN N) cookieValue s of
                Inl err \<Rightarrow> (Inl err, s)
              | Inr s' \<Rightarrow> (Inr (), s'))
           else (Inr (), s)))"

definition getAntiCSRFToken :: "names \<Rightarrow> browser \<Rightarrow> error + string option" where
  "getAntiCSRFToken N s =
     (case readCookie (COOKIE_CSRF_TOKEN N) s of
        None \<Rightarrow> getItem (LOCALSTORAGE_CSRF_TOKEN N) s
      | Some cookieValue \<Rightarrow>
          (if cookieValue \<noteq> [] then Inr (Some cookieValue)
           else getItem (LOCALSTORAGE_CSRF_TOKEN N) s))"

section \<open>The authorization gate\<close>

text \<open>\<^verbatim>\<open>role?: string | Array<string>\<close>\<close>

datatype role_rule = RoleString string | RoleArray "string list"

text \<open>
  \<^verbatim>\<open>authenticate?: boolean | {redirectTo?: string | RouteUrlObject; role?: ...}\<close>; the
  target of a redirect is kept as its text.
\<close>

datatype authenticate = AuthBool bool | AuthObject "string option" "role_rule option"







section \<open>The rules of a page\<close>

text \<open>
  A React element as \<^verbatim>\<open>getAuthValues\<close> reads it: the two rules its type carries
  (\<open>None\<close> is \<^verbatim>\<open>undefined\<close>) and \<^verbatim>\<open>props.children\<close>, absent or one element. \<open>'r\<close> is the
  type of a \<^verbatim>\<open>redirectAuthenticatedTo\<close> rule.
\<close>

record 'r rules =
  authenticate :: "authenticate option"
  redirectAuthenticatedTo :: "'r option"

datatype 'r element = Element (elem_type: "'r rules") (children: "'r element option")

text \<open>
  A page: its own rules and \<^verbatim>\<open>getLayout\<close>, which gives the layout element for the
  page rendered with the given props.
\<close>

record ('r, 'p) page =
  page_rules :: "'r rules"
  getLayout :: "('p \<Rightarrow> 'r element) option"

text \<open>
  The loop of \<^verbatim>\<open>getAuthValues\<close>. \<open>layout\<close> is the element \<^verbatim>\<open>getLayout\<close> returned and
  \<open>currentElement\<close> the variable the loop moves down the chain of children. The source
  reads \<^verbatim>\<open>layout.type\<close> in every round.
\<close>

fun walk_layout :: "'r element \<Rightarrow> 'r element \<Rightarrow> 'r rules" where
  "walk_layout layout (Element t ch) =
     (if authenticate (elem_type layout) \<noteq> None \<or> redirectAuthenticatedTo (elem_type layout) \<noteq> None
      then \<lparr>authenticate = authenticate (elem_type layout),
            redirectAuthenticatedTo = redirectAuthenticatedTo (elem_type layout)\<rparr>
      else
        (case ch of
           Some child \<Rightarrow> walk_layout layout child
         | None \<Rightarrow> \<lparr>authenticate = None, redirectAuthenticatedTo = None\<rparr>))"

definition getAuthValues :: "('r, 'p) page option \<Rightarrow> 'p \<Rightarrow> 'r rules" where
  "getAuthValues Page props =
     (case Page of
        None \<Rightarrow> \<lparr>authenticate = None, redirectAuthenticatedTo = None\<rparr>
      | Some P \<Rightarrow>
          (if authenticate (page_rules P) = None \<and> redirectAuthenticatedTo (page_rules P) = None then
             (case getLayout P of
                None \<Rightarrow> \<lparr>authenticate = None, redirectAuthenticatedTo = None\<rparr>
              | Some layout_of \<Rightarrow> walk_layout (layout_of props) (layout_of props))
           else \<lparr>authenticate = authenticate (page_rules P),
                 redirectAuthenticatedTo = redirectAuthenticatedTo (page_rules P)\<rparr>))"

text \<open>
  The lookup in the words of the specification: the rules of the first element of the
  chain of children whose type carries either rule; none when the chain ends first.
\<close>

fun first_rules_in_chain :: "'r element \<Rightarrow> 'r rules" where
  "first_rules_in_chain (Element t ch) =
     (if authenticate t \<noteq> None \<or> redirectAuthenticatedTo t \<noteq> None
      then \<lparr>authenticate = authenticate t, redirectAuthenticatedTo = redirectAuthenticatedTo t\<rparr>
      else
        (case ch of
           Some child \<Rightarrow> first_rules_in_chain child
         | None \<Rightarrow> \<lparr>authenticate = None, redirectAuthenticatedTo = None\<rparr>))"

section \<open>Observing the store\<close>

text \<open>
  The tab after the first statement of \<^verbatim>\<open>updateState\<close>: unless the event is
  suppressed, the key that signals a change holds the time of the call; where the
  storage is not available the failure is logged.
\<close>

definition after_broadcast :: "names \<Rightarrow> nat \<Rightarrow> bool option \<Rightarrow> browser \<Rightarrow> browser" where
  "after_broadcast N now opts s =
     (if opts = Some True then s
      else
        (case localStorage s of
           None \<Rightarrow> console_error ''LocalStorage is not available'' s
         | Some m \<Rightarrow> s\<lparr>localStorage := Some (m(eventKey N \<mapsto> toString now))\<rparr>))"

text \<open>The text under the key that signals a change, and the number a decimal text denotes.\<close>

definition broadcast_key :: "names \<Rightarrow> browser \<Rightarrow> string option" where
  "broadcast_key N s = (case localStorage s of None \<Rightarrow> None | Some m \<Rightarrow> m (eventKey N))"

definition read_decimal :: "string \<Rightarrow> nat option" where
  "read_decimal cs =
     (if cs \<noteq> [] \<and> list_all is_digit cs then Some (fst (parse_digits 0 cs)) else None)"

text \<open>What one subscriber received among the values delivered after the first \<open>n\<close>.\<close>

definition received_after :: "nat \<Rightarrow> nat \<Rightarrow> browser \<Rightarrow> json list" where
  "received_after n sub s = map snd (filter (\<lambda>d. fst d = sub) (drop n (delivered s)))"

section \<open>Example tabs\<close>

definition example_names :: names where
  "example_names =
     \<lparr>COOKIE_PUBLIC_DATA_TOKEN = ''blitz_sPublicDataToken'',
      COOKIE_CSRF_TOKEN = ''blitz_sAntiCsrfToken'',
      LOCALSTORAGE_PUBLIC_DATA_TOKEN = ''_blitz-publicDataToken'',
      LOCALSTORAGE_CSRF_TOKEN = ''_blitz-antiCsrfToken'',
      LOCALSTORAGE_PREFIX = ''_blitz-''\<rparr>"

text \<open>A tab with two subscribers, the given cookies and the given storage.\<close>

definition example_tab :: "(string \<rightharpoonup> string) \<Rightarrow> (string \<rightharpoonup> string) option \<Rightarrow> browser" where
  "example_tab jar storage =
     \<lparr>cookies = jar, localStorage = storage, console = [], subscribers = [1, 2], delivered = []\<rparr>"

text \<open>
  A page without rules whose layout wraps it in two elements: the outer one carries no
  rule, the inner one requires authentication.
\<close>

definition example_layout :: "string element" where
  "example_layout =
     Element \<lparr>authenticate = None, redirectAuthenticatedTo = None\<rparr>
       (Some (Element \<lparr>authenticate = Some (AuthBool True), redirectAuthenticatedTo = None\<rparr> None))"

definition example_page :: "(string, unit) page" where
  "example_page =
     \<lparr>page_rules = \<lparr>authenticate = None, redirectAuthenticatedTo = None\<rparr>,
      getLayout = Some (\<lambda>props. example_layout)\<rparr>"

section \<open>The session token is read from the cookie first\<close>

lemma getToken_cookie:
  assumes "readCookie (COOKIE_PUBLIC_DATA_TOKEN N) s = Some a" and "a \<noteq> []"
    and "localStorage s = Some m"
  shows "getToken N s = (Some a, s\<lparr>localStorage := Some (m(LOCALSTORAGE_PUBLIC_DATA_TOKEN N \<mapsto> a))\<rparr>)"
  using assms by (simp add: getToken_def setItem_def)

lemma getToken_no_cookie:
  assumes "readCookie (COOKIE_PUBLIC_DATA_TOKEN N) s = None" and "localStorage s = Some m"
  shows "getToken N s = (m (LOCALSTORAGE_PUBLIC_DATA_TOKEN N), s)"
  using assms by (simp add: getToken_def getItem_def)

lemma getToken_unavailable:
  assumes "localStorage s = None"
  shows "getToken N s = (None, console_error ''LocalStorage is not available'' s)"
  using assms by (simp add: getToken_def getItem_def setItem_def Let_def split: option.splits)

text \<open>
  C2. With the cookie holding a value \<open>a\<close> and the storage holding anything (a different
  value \<open>b\<close> under the mirror key included), \<open>getToken\<close> returns \<open>a\<close> and the mirror key
  of the storage holds \<open>a\<close> afterwards, nothing else changed. With the cookie absent and
  the mirror holding \<open>b\<close>, \<open>getToken\<close> returns \<open>b\<close> and the tab is as it was.
\<close>

theorem getToken_dual_storage:
  "(readCookie (COOKIE_PUBLIC_DATA_TOKEN N) s = Some a \<and> a \<noteq> [] \<and> localStorage s = Some m
      \<longrightarrow> getToken N s =
            (Some a, s\<lparr>localStorage := Some (m(LOCALSTORAGE_PUBLIC_DATA_TOKEN N \<mapsto> a))\<rparr>))
   \<and> (readCookie (COOKIE_PUBLIC_DATA_TOKEN N) s = None \<and> localStorage s = Some m
        \<and> m (LOCALSTORAGE_PUBLIC_DATA_TOKEN N) = Some b
      \<longrightarrow> getToken N s = (Some b, s))"
proof (intro conjI impI)
  assume "readCookie (COOKIE_PUBLIC_DATA_TOKEN N) s = Some a \<and> a \<noteq> [] \<and> localStorage s = Some m"
  then show "getToken N s =
      (Some a, s\<lparr>localStorage := Some (m(LOCALSTORAGE_PUBLIC_DATA_TOKEN N \<mapsto> a))\<rparr>)"
    by (simp add: getToken_cookie)
next
  assume "readCookie (COOKIE_PUBLIC_DATA_TOKEN N) s = None \<and> localStorage s = Some m
        \<and> m (LOCALSTORAGE_PUBLIC_DATA_TOKEN N) = Some b"
  then show "getToken N s = (Some b, s)"
    by (simp add: getToken_no_cookie)
qed

theorem getToken_dual_storage_witness:
  "getToken example_names (example_tab [''blitz_sPublicDataToken'' \<mapsto> ''A''] (Some [''_blitz-publicDataToken'' \<mapsto> ''B'']))
     = (Some ''A'', example_tab [''blitz_sPublicDataToken'' \<mapsto> ''A''] (Some [''_blitz-publicDataToken'' \<mapsto> ''A'']))
   \<and> getToken example_names (example_tab Map.empty (Some [''_blitz-publicDataToken'' \<mapsto> ''B'']))
     = (Some ''B'', example_tab Map.empty (Some [''_blitz-publicDataToken'' \<mapsto> ''B'']))"
  using getToken_dual_storage [of example_names
      "example_tab [''blitz_sPublicDataToken'' \<mapsto> ''A''] (Some [''_blitz-publicDataToken'' \<mapsto> ''B''])" "''A''"
      "[''_blitz-publicDataToken'' \<mapsto> ''B'']" "''B''"]
    getToken_dual_storage [of example_names
      "example_tab Map.empty (Some [''_blitz-publicDataToken'' \<mapsto> ''B''])" "''A''"
      "[''_blitz-publicDataToken'' \<mapsto> ''B'']" "''B''"]
  by (simp add: example_names_def example_tab_def readCookie_def)

section \<open>Decoding a token\<close>

lemma fromBase64_not_json: "fromBase64 ''bm90IGpzb24='' = Some ''not json''"
  by (simp add: b64_value_def char_of_eq_iff)

lemma JSON_parse_not_json: "JSON_parse ''not json'' = None"
  by (simp add: JSON_parse_def skip_ws_def is_ws_def eval_nat_numeral)






section \<open>Reading the session\<close>

lemma getData_eq:
  "getData N s =
     (case fst (getToken N s) of
        None \<Rightarrow> (Inr emptyPublicData, snd (getToken N s))
      | Some token \<Rightarrow>
          (if token = [] then (Inr emptyPublicData, snd (getToken N s))
           else (parsePublicDataToken token, snd (getToken N s))))"
  by (simp add: getData_def split: prod.splits option.splits)

lemma getData_unavailable:
  assumes "localStorage s = None"
  shows "getData N s = (Inr emptyPublicData, console_error ''LocalStorage is not available'' s)"
  using assms by (simp add: getData_eq getToken_unavailable)

text \<open>
  C4. When \<open>getToken\<close> gives no token (or the empty one) \<open>getData\<close> returns
  \<open>emptyPublicData\<close>. When it gives a token, \<open>getData\<close> returns what the decoder returns
  for it: a token that is not base64, or whose text is not JSON, makes \<open>getData\<close> end
  with the decoder's exception, not with \<open>emptyPublicData\<close>.
\<close>

theorem getData_empty_or_decode_error:
  "(fst (getToken N s) = None \<or> fst (getToken N s) = Some []
      \<longrightarrow> fst (getData N s) = Inr emptyPublicData)
   \<and> (\<forall>token. fst (getToken N s) = Some token \<and> token \<noteq> []
        \<longrightarrow> fst (getData N s) = parsePublicDataToken token
          \<and> (fromBase64 token = None \<longrightarrow> fst (getData N s) = Inl InvalidCharacterError)
          \<and> (\<forall>decoded. fromBase64 token = Some decoded \<and> JSON_parse decoded = None
               \<longrightarrow> fst (getData N s) =
                     Inl (Error (''[parsePublicDataToken] Failed to parse publicDataStr: ''
                            @ decoded))))"
  by (auto simp: getData_eq parsePublicDataToken_def)

theorem getData_empty_or_decode_error_witness:
  "fst (getData example_names (example_tab Map.empty None)) = Inr emptyPublicData
   \<and> fst (getData example_names
        (example_tab [''blitz_sPublicDataToken'' \<mapsto> ''bm90IGpzb24=''] (Some Map.empty)))
     = Inl (Error ''[parsePublicDataToken] Failed to parse publicDataStr: not json'')"
proof -
  let ?s = "example_tab [''blitz_sPublicDataToken'' \<mapsto> ''bm90IGpzb24=''] (Some Map.empty)"
  have none: "fst (getToken example_names (example_tab Map.empty None)) = None"
    by (simp add: getToken_unavailable example_tab_def)
  have some: "fst (getToken example_names ?s) = Some ''bm90IGpzb24=''"
    by (simp add: getToken_def readCookie_def setItem_def example_tab_def example_names_def)
  have decode: "parsePublicDataToken ''bm90IGpzb24=''
      = Inl (Error ''[parsePublicDataToken] Failed to parse publicDataStr: not json'')"
    by (simp add: parsePublicDataToken_def fromBase64_not_json JSON_parse_not_json
          del: fromBase64.simps)
  note at_s = getData_empty_or_decode_error
    [of example_names ?s, THEN conjunct2, rule_format, of "''bm90IGpzb24=''"]
  from none have "fst (getData example_names (example_tab Map.empty None)) = Inr emptyPublicData"
    using getData_empty_or_decode_error [of example_names "example_tab Map.empty None"]
    by simp
  moreover from some have "fst (getData example_names ?s) = parsePublicDataToken ''bm90IGpzb24=''"
    using at_s by simp
  ultimately show ?thesis by (simp only: decode)
qed

section \<open>Updating the store\<close>

lemma updateState_eq:
  "updateState N now v opts s =
     (case v of
        Some x \<Rightarrow> (Inr (), observable_next x (after_broadcast N now opts s))
      | None \<Rightarrow>
          (case getData N (after_broadcast N now opts s) of
             (Inl err, s2) \<Rightarrow> (Inl err, s2)
           | (Inr d, s2) \<Rightarrow> (Inr (), observable_next d s2)))"
  by (simp add: updateState_def after_broadcast_def setItem_def split: option.splits)

lemma after_broadcast_frame [simp]:
  "cookies (after_broadcast N now opts s) = cookies s"
  "subscribers (after_broadcast N now opts s) = subscribers s"
  "delivered (after_broadcast N now opts s) = delivered s"
  by (simp_all add: after_broadcast_def console_error_def split: option.splits)

lemma after_broadcast_storage:
  "localStorage (after_broadcast N now opts s) =
     (if opts = Some True then localStorage s
      else map_option (\<lambda>m. m(eventKey N \<mapsto> toString now)) (localStorage s))"
  by (simp add: after_broadcast_def console_error_def split: option.splits)

lemma getToken_frame [simp]:
  "cookies (snd (getToken N s)) = cookies s"
  "subscribers (snd (getToken N s)) = subscribers s"
  "delivered (snd (getToken N s)) = delivered s"
  by (simp_all add: getToken_def getItem_def setItem_def console_error_def Let_def
        split: option.splits sum.splits)

lemma getData_frame [simp]:
  "cookies (snd (getData N s)) = cookies s"
  "subscribers (snd (getData N s)) = subscribers s"
  "delivered (snd (getData N s)) = delivered s"
  by (simp_all add: getData_eq split: option.splits)

lemma received_after_next:
  assumes "distinct (subscribers s)" and "sub \<in> set (subscribers s)"
    and "delivered s' = delivered s @ map (\<lambda>x. (x, v)) (subscribers s)"
  shows "received_after (length (delivered s)) sub s' = [v]"
proof -
  have "distinct xs \<Longrightarrow> sub \<in> set xs \<Longrightarrow>
      map snd (filter (\<lambda>d. fst d = sub) (map (\<lambda>x. (x, v)) xs)) = [v]" for xs
    by (induction xs) (auto simp: filter_empty_conv)
  with assms show ?thesis by (simp add: received_after_def)
qed

section \<open>Decimal numerals\<close>

lemma digit_char_digit:
  assumes "d < 10"
  shows "is_digit (digit_char d)" and "digit_value (digit_char d) = d"
  using assms by (simp_all add: is_digit_def digit_value_def digit_char_def)

lemma toString_digits: "list_all is_digit (toString n)"
proof (induction n rule: toString.induct)
  case (1 n)
  then show ?case
    by (subst toString.simps) (simp add: digit_char_digit)
qed

lemma toString_nonempty: "toString n \<noteq> []"
  by (subst toString.simps) simp

lemma parse_digits_stop:
  assumes "rest = [] \<or> \<not> is_digit (hd rest)"
  shows "parse_digits acc rest = (acc, rest)"
  using assms by (cases rest) auto

lemma parse_digits_append:
  assumes "list_all is_digit ds" and "rest = [] \<or> \<not> is_digit (hd rest)"
  shows "parse_digits acc (ds @ rest) = (digits_value acc ds, rest)"
  using assms
  by (induction ds arbitrary: acc) (simp_all add: digits_value_def parse_digits_stop)

lemma digits_value_toString:
  "digits_value acc (toString n) = acc * 10 ^ length (toString n) + n"
proof (induction n arbitrary: acc rule: toString.induct)
  case (1 n)
  show ?case
  proof (cases "n < 10")
    case True
    then show ?thesis
      by (subst (1 2) toString.simps) (simp add: digits_value_def digit_char_digit)
  next
    case False
    have "digits_value acc (toString n)
        = digits_value acc (toString (n div 10)) * 10 + n mod 10"
      using False
      by (subst toString.simps) (simp add: digits_value_def digit_char_digit)
    also have "\<dots> = (acc * 10 ^ length (toString (n div 10)) + n div 10) * 10 + n mod 10"
      using False by (simp add: "1.IH")
    also have "\<dots> = acc * 10 ^ length (toString n) + n"
      using False by (subst (2) toString.simps) (simp add: algebra_simps)
    finally show ?thesis .
  qed
qed

lemma parse_digits_toString:
  assumes "rest = [] \<or> \<not> is_digit (hd rest)"
  shows "parse_digits 0 (toString n @ rest) = (n, rest)"
  using assms by (simp add: parse_digits_append toString_digits digits_value_toString)

lemma read_decimal_toString: "read_decimal (toString n) = Some n"
  using parse_digits_toString [of "[]" n]
  by (simp add: read_decimal_def toString_digits toString_nonempty)

section \<open>What an update emits\<close>

lemma updateState_value:
  "updateState N now (Some v) opts s = (Inr (), observable_next v (after_broadcast N now opts s))"
  by (simp add: updateState_eq)

lemma delivered_next [simp]:
  "delivered (observable_next v s) = delivered s @ map (\<lambda>sub. (sub, v)) (subscribers s)"
  by (simp add: observable_next_def)

lemma next_frame [simp]:
  "cookies (observable_next v s) = cookies s"
  "localStorage (observable_next v s) = localStorage s"
  "subscribers (observable_next v s) = subscribers s"
  by (simp_all add: observable_next_def)

lemma updateState_recomputed:
  assumes "fst (getData N (after_broadcast N now opts s)) = Inr d"
  shows "fst (updateState N now None opts s) = Inr ()"
    and "delivered (snd (updateState N now None opts s))
         = delivered s @ map (\<lambda>sub. (sub, d)) (subscribers s)"
proof -
  obtain s2 where g: "getData N (after_broadcast N now opts s) = (Inr d, s2)"
    using assms by (cases "getData N (after_broadcast N now opts s)") simp
  have "delivered s2 = delivered s" and "subscribers s2 = subscribers s"
    using getData_frame [of N "after_broadcast N now opts s"] g by simp_all
  with g show "fst (updateState N now None opts s) = Inr ()"
    and "delivered (snd (updateState N now None opts s))
         = delivered s @ map (\<lambda>sub. (sub, d)) (subscribers s)"
    by (simp_all add: updateState_eq)
qed

lemma updateState_raises:
  assumes "fst (getData N (after_broadcast N now opts s)) = Inl e"
  shows "fst (updateState N now None opts s) = Inl e"
    and "delivered (snd (updateState N now None opts s)) = delivered s"
proof -
  obtain s2 where g: "getData N (after_broadcast N now opts s) = (Inl e, s2)"
    using assms by (cases "getData N (after_broadcast N now opts s)") simp
  have "delivered s2 = delivered s"
    using getData_frame [of N "after_broadcast N now opts s"] g by simp
  with g show "fst (updateState N now None opts s) = Inl e"
    and "delivered (snd (updateState N now None opts s)) = delivered s"
    by (simp_all add: updateState_eq)
qed

lemma getData_after_failed_write:
  assumes "localStorage s = None"
  shows "fst (getData N (after_broadcast N now opts s)) = Inr emptyPublicData"
proof -
  have "localStorage (after_broadcast N now opts s) = None"
    using assms by (simp add: after_broadcast_storage)
  then show ?thesis by (simp add: getData_unavailable)
qed

text \<open>
  C10, as the code has it. A call of \<open>updateState\<close> with a value ends normally and every
  subscriber is sent that value once, whatever the storage does. A call without a value
  reads the session after the write of the broadcast key: if that read gives a record,
  the call ends normally and every subscriber is sent that record once; if the read
  raises (a token that does not decode), the call raises the same exception and nothing
  is sent. Where the storage is not available the read gives \<open>emptyPublicData\<close>, so a
  failed write of the broadcast key never prevents the emission.
\<close>

theorem updateState_emission:
  "(\<forall>v. fst (updateState N now (Some v) opts s) = Inr ()
        \<and> delivered (snd (updateState N now (Some v) opts s))
            = delivered s @ map (\<lambda>sub. (sub, v)) (subscribers s))
   \<and> (\<forall>d. fst (getData N (after_broadcast N now opts s)) = Inr d
        \<longrightarrow> fst (updateState N now None opts s) = Inr ()
          \<and> delivered (snd (updateState N now None opts s))
              = delivered s @ map (\<lambda>sub. (sub, d)) (subscribers s))
   \<and> (\<forall>e. fst (getData N (after_broadcast N now opts s)) = Inl e
        \<longrightarrow> fst (updateState N now None opts s) = Inl e
          \<and> delivered (snd (updateState N now None opts s)) = delivered s)
   \<and> (localStorage s = None
        \<longrightarrow> fst (getData N (after_broadcast N now opts s)) = Inr emptyPublicData)
   \<and> (distinct (subscribers s)
        \<longrightarrow> (\<forall>sub \<in> set (subscribers s). \<forall>v.
              received_after (length (delivered s)) sub
                (snd (updateState N now (Some v) opts s)) = [v]))"
proof (intro conjI allI impI ballI)
  fix v
  show "fst (updateState N now (Some v) opts s) = Inr ()"
    by (simp add: updateState_value)
  show "delivered (snd (updateState N now (Some v) opts s))
      = delivered s @ map (\<lambda>sub. (sub, v)) (subscribers s)"
    by (simp add: updateState_value)
next
  fix d
  assume "fst (getData N (after_broadcast N now opts s)) = Inr d"
  then show "fst (updateState N now None opts s) = Inr ()"
    and "delivered (snd (updateState N now None opts s))
      = delivered s @ map (\<lambda>sub. (sub, d)) (subscribers s)"
    by (rule updateState_recomputed)+
next
  fix e
  assume "fst (getData N (after_broadcast N now opts s)) = Inl e"
  then show "fst (updateState N now None opts s) = Inl e"
    and "delivered (snd (updateState N now None opts s)) = delivered s"
    by (rule updateState_raises)+
next
  assume "localStorage s = None"
  then show "fst (getData N (after_broadcast N now opts s)) = Inr emptyPublicData"
    by (rule getData_after_failed_write)
next
  fix sub v
  assume "distinct (subscribers s)" and "sub \<in> set (subscribers s)"
  then show "received_after (length (delivered s)) sub
      (snd (updateState N now (Some v) opts s)) = [v]"
    by (rule received_after_next) (simp add: updateState_value)
qed

text \<open>
  A tab whose storage is not available: a call without a value and without options
  still sends \<open>emptyPublicData\<close> to both subscribers, once each.
\<close>

theorem updateState_emission_witness:
  "fst (updateState example_names 5 None None (example_tab Map.empty None)) = Inr ()
   \<and> delivered (snd (updateState example_names 5 None None (example_tab Map.empty None)))
       = [(1, emptyPublicData), (2, emptyPublicData)]
   \<and> received_after 0 2
        (snd (updateState example_names 5 (Some (JStr ''v'')) None (example_tab Map.empty None)))
       = [JStr ''v'']"
proof -
  let ?s = "example_tab Map.empty None"
  note all = updateState_emission [of example_names 5 None ?s]
  have unavailable: "localStorage ?s = None" and subs: "subscribers ?s = [1, 2]"
    and none: "delivered ?s = []"
    by (simp_all add: example_tab_def)
  from all unavailable
  have read: "fst (getData example_names (after_broadcast example_names 5 None ?s))
      = Inr emptyPublicData"
    by simp
  from all read
  have "fst (updateState example_names 5 None None ?s) = Inr ()
      \<and> delivered (snd (updateState example_names 5 None None ?s))
          = delivered ?s @ map (\<lambda>sub. (sub, emptyPublicData)) (subscribers ?s)"
    by simp
  moreover from all
  have "distinct (subscribers ?s) \<longrightarrow> (\<forall>sub \<in> set (subscribers ?s). \<forall>v.
      received_after (length (delivered ?s)) sub
        (snd (updateState example_names 5 (Some v) None ?s)) = [v])"
    by simp
  then have "received_after 0 2
      (snd (updateState example_names 5 (Some (JStr ''v'')) None ?s)) = [JStr ''v'']"
    by (simp add: subs none)
  ultimately show ?thesis by (simp add: subs none)
qed

text \<open>
  C10 as stated fails: with a session cookie whose text is not JSON, a call without a
  value raises the decoder's exception and neither subscriber is sent anything.
\<close>

theorem updateState_emission_counterexample:
  "fst (updateState example_names 5 None None
         (example_tab [''blitz_sPublicDataToken'' \<mapsto> ''bm90IGpzb24=''] (Some Map.empty)))
     = Inl (Error ''[parsePublicDataToken] Failed to parse publicDataStr: not json'')
   \<and> subscribers (example_tab [''blitz_sPublicDataToken'' \<mapsto> ''bm90IGpzb24=''] (Some Map.empty))
     = [1, 2]
   \<and> delivered (snd (updateState example_names 5 None None
         (example_tab [''blitz_sPublicDataToken'' \<mapsto> ''bm90IGpzb24=''] (Some Map.empty))))
     = []"
proof -
  let ?s = "example_tab [''blitz_sPublicDataToken'' \<mapsto> ''bm90IGpzb24=''] (Some Map.empty)"
  have decode: "parsePublicDataToken ''bm90IGpzb24=''
      = Inl (Error ''[parsePublicDataToken] Failed to parse publicDataStr: not json'')"
    by (simp add: parsePublicDataToken_def fromBase64_not_json JSON_parse_not_json
          del: fromBase64.simps)
  have "fst (getToken example_names (after_broadcast example_names 5 None ?s))
      = Some ''bm90IGpzb24=''"
    by (simp add: getToken_def readCookie_def setItem_def example_tab_def example_names_def
          after_broadcast_def)
  then have "fst (getData example_names (after_broadcast example_names 5 None ?s))
      = Inl (Error ''[parsePublicDataToken] Failed to parse publicDataStr: not json'')"
    by (simp add: getData_eq decode)
  then have "fst (updateState example_names 5 None None ?s)
      = Inl (Error ''[parsePublicDataToken] Failed to parse publicDataStr: not json'')"
    and "delivered (snd (updateState example_names 5 None None ?s)) = delivered ?s"
    by (rule updateState_raises)+
  then show ?thesis by (simp add: example_tab_def)
qed

section \<open>Logging out\<close>

lemma clear_eq:
  "clear N now s =
     (Inr (),
      observable_next emptyPublicData
        (after_broadcast N now None
          (case localStorage s of
             None \<Rightarrow> console_error ''LocalStorage is not available''
                       (deleteCookie (COOKIE_PUBLIC_DATA_TOKEN N) s)
           | Some m \<Rightarrow>
               (deleteCookie (COOKIE_PUBLIC_DATA_TOKEN N) s)
                 \<lparr>localStorage := Some (m(LOCALSTORAGE_PUBLIC_DATA_TOKEN N := None))\<rparr>)))"
  by (simp add: clear_def updateState_value removeItem_def deleteCookie_def Let_def
        split: option.splits)

lemma clear_cookies:
  "cookies (snd (clear N now s)) = (cookies s)(COOKIE_PUBLIC_DATA_TOKEN N := None)"
  by (simp add: clear_eq deleteCookie_def console_error_def split: option.splits)

lemma clear_storage:
  "localStorage (snd (clear N now s)) =
     map_option (\<lambda>m. (m(LOCALSTORAGE_PUBLIC_DATA_TOKEN N := None))(eventKey N \<mapsto> toString now))
       (localStorage s)"
  by (simp add: clear_eq after_broadcast_storage deleteCookie_def console_error_def
        split: option.splits)

lemma clear_delivered:
  "delivered (snd (clear N now s))
     = delivered s @ map (\<lambda>sub. (sub, emptyPublicData)) (subscribers s)"
  by (simp add: clear_eq deleteCookie_def console_error_def split: option.splits)

lemma getData_logged_out:
  assumes "cookies s (COOKIE_PUBLIC_DATA_TOKEN N) = None"
    and "\<forall>m. localStorage s = Some m \<longrightarrow> m (LOCALSTORAGE_PUBLIC_DATA_TOKEN N) = None"
  shows "fst (getData N s) = Inr emptyPublicData"
proof (cases "localStorage s")
  case None
  then show ?thesis by (simp add: getData_unavailable)
next
  case (Some m)
  with assms have "getToken N s = (None, s)"
    by (simp add: getToken_no_cookie readCookie_def)
  then show ?thesis by (simp add: getData_eq)
qed

text \<open>
  C1. For every tab, with any subscribers (each registered once) and with the broadcast
  key different from the key of the mirror: \<open>clear\<close> ends normally; afterwards the
  session cookie is absent; the storage, where it is available, no longer holds the
  mirror (it holds what it held, without the mirror and with the broadcast key set);
  \<open>getData\<close> returns \<open>emptyPublicData\<close>; and what \<open>clear\<close> delivered is one
  \<open>emptyPublicData\<close> to each subscriber, in the order of subscription.
\<close>

theorem clear_resets_session:
  assumes "eventKey N \<noteq> LOCALSTORAGE_PUBLIC_DATA_TOKEN N" and "distinct (subscribers s)"
  shows "fst (clear N now s) = Inr ()
    \<and> readCookie (COOKIE_PUBLIC_DATA_TOKEN N) (snd (clear N now s)) = None
    \<and> localStorage (snd (clear N now s)) =
        map_option (\<lambda>m. (m(LOCALSTORAGE_PUBLIC_DATA_TOKEN N := None))(eventKey N \<mapsto> toString now))
          (localStorage s)
    \<and> (\<forall>m. localStorage (snd (clear N now s)) = Some m
          \<longrightarrow> m (LOCALSTORAGE_PUBLIC_DATA_TOKEN N) = None)
    \<and> fst (getData N (snd (clear N now s))) = Inr emptyPublicData
    \<and> delivered (snd (clear N now s))
        = delivered s @ map (\<lambda>sub. (sub, emptyPublicData)) (subscribers s)
    \<and> (\<forall>sub \<in> set (subscribers s).
          received_after (length (delivered s)) sub (snd (clear N now s)) = [emptyPublicData])"
proof -
  have cookie: "cookies (snd (clear N now s)) (COOKIE_PUBLIC_DATA_TOKEN N) = None"
    by (simp add: clear_cookies)
  have mirror: "\<forall>m. localStorage (snd (clear N now s)) = Some m
      \<longrightarrow> m (LOCALSTORAGE_PUBLIC_DATA_TOKEN N) = None"
    using assms(1) by (auto simp: clear_storage)
  have "fst (getData N (snd (clear N now s))) = Inr emptyPublicData"
    using cookie mirror by (rule getData_logged_out)
  moreover have "\<forall>sub \<in> set (subscribers s).
      received_after (length (delivered s)) sub (snd (clear N now s)) = [emptyPublicData]"
    using assms(2) by (auto intro: received_after_next simp: clear_delivered)
  moreover have "fst (clear N now s) = Inr ()"
    by (simp add: clear_eq)
  ultimately show ?thesis
    using cookie mirror by (simp add: readCookie_def clear_storage clear_delivered)
qed

text \<open>
  A logged-in tab: the cookie and the mirror hold a token, two subscribers listen.
\<close>

theorem clear_resets_session_witness:
  "fst (clear example_names 5
     (example_tab [''blitz_sPublicDataToken'' \<mapsto> ''eyJ1c2VySWQiOjEsInJvbGUiOiJhZG1pbiJ9'']
        (Some [''_blitz-publicDataToken'' \<mapsto> ''eyJ1c2VySWQiOjEsInJvbGUiOiJhZG1pbiJ9'']))) = Inr ()
   \<and> readCookie ''blitz_sPublicDataToken'' (snd (clear example_names 5
     (example_tab [''blitz_sPublicDataToken'' \<mapsto> ''eyJ1c2VySWQiOjEsInJvbGUiOiJhZG1pbiJ9'']
        (Some [''_blitz-publicDataToken'' \<mapsto> ''eyJ1c2VySWQiOjEsInJvbGUiOiJhZG1pbiJ9''])))) = None
   \<and> localStorage (snd (clear example_names 5
     (example_tab [''blitz_sPublicDataToken'' \<mapsto> ''eyJ1c2VySWQiOjEsInJvbGUiOiJhZG1pbiJ9'']
        (Some [''_blitz-publicDataToken'' \<mapsto> ''eyJ1c2VySWQiOjEsInJvbGUiOiJhZG1pbiJ9'']))))
       = Some [''_blitz-publicDataUpdated'' \<mapsto> ''5'']
   \<and> fst (getData example_names (snd (clear example_names 5
     (example_tab [''blitz_sPublicDataToken'' \<mapsto> ''eyJ1c2VySWQiOjEsInJvbGUiOiJhZG1pbiJ9'']
        (Some [''_blitz-publicDataToken'' \<mapsto> ''eyJ1c2VySWQiOjEsInJvbGUiOiJhZG1pbiJ9''])))))
       = Inr emptyPublicData
   \<and> delivered (snd (clear example_names 5
     (example_tab [''blitz_sPublicDataToken'' \<mapsto> ''eyJ1c2VySWQiOjEsInJvbGUiOiJhZG1pbiJ9'']
        (Some [''_blitz-publicDataToken'' \<mapsto> ''eyJ1c2VySWQiOjEsInJvbGUiOiJhZG1pbiJ9'']))))
       = [(1, emptyPublicData), (2, emptyPublicData)]"
proof -
  let ?s = "example_tab [''blitz_sPublicDataToken'' \<mapsto> ''eyJ1c2VySWQiOjEsInJvbGUiOiJhZG1pbiJ9'']
        (Some [''_blitz-publicDataToken'' \<mapsto> ''eyJ1c2VySWQiOjEsInJvbGUiOiJhZG1pbiJ9''])"
  have keys: "eventKey example_names \<noteq> LOCALSTORAGE_PUBLIC_DATA_TOKEN example_names"
    by (simp add: eventKey_def example_names_def)
  have subs: "distinct (subscribers ?s)"
    by (simp add: example_tab_def)
  have five: "toString 5 = ''5''"
    by (simp add: toString.simps digit_char_def char_of_eq_iff)
  have storage: "map_option
      (\<lambda>m. (m(LOCALSTORAGE_PUBLIC_DATA_TOKEN example_names := None))
              (eventKey example_names \<mapsto> toString 5))
      (localStorage ?s) = Some [''_blitz-publicDataUpdated'' \<mapsto> ''5'']"
    by (simp add: five eventKey_def example_tab_def example_names_def)
  show ?thesis
    using clear_resets_session [OF keys subs, of 5]
    by (simp add: storage) (simp add: example_tab_def example_names_def)
qed

section \<open>The broadcast key\<close>

lemma broadcast_key_next [simp]:
  "broadcast_key N (observable_next v s) = broadcast_key N s"
  by (simp add: broadcast_key_def)

lemma broadcast_key_after:
  "broadcast_key N (after_broadcast N now opts s) =
     (if opts = Some True then broadcast_key N s
      else map_option (\<lambda>m. toString now) (localStorage s))"
  by (simp add: broadcast_key_def after_broadcast_storage split: option.splits)

text \<open>
  C3, as the code has it. With \<^verbatim>\<open>{suppressEvent: true}\<close> the call sends the value to
  every subscriber and changes nothing else: the broadcast key is what it was. Without
  options the call sends the value to every subscriber and, where the storage is
  available, sets the broadcast key to the decimal text of the time of the call. The
  new number is greater than the one the key held when the clock has passed that
  number.
\<close>

theorem updateState_broadcast:
  "updateState N now (Some v) (Some True) s = (Inr (), observable_next v s)
   \<and> broadcast_key N (snd (updateState N now (Some v) (Some True) s)) = broadcast_key N s
   \<and> delivered (snd (updateState N now (Some v) (Some True) s))
       = delivered s @ map (\<lambda>sub. (sub, v)) (subscribers s)
   \<and> fst (updateState N now (Some v) None s) = Inr ()
   \<and> delivered (snd (updateState N now (Some v) None s))
       = delivered s @ map (\<lambda>sub. (sub, v)) (subscribers s)
   \<and> broadcast_key N (snd (updateState N now (Some v) None s))
       = map_option (\<lambda>m. toString now) (localStorage s)
   \<and> read_decimal (toString now) = Some now
   \<and> (\<forall>old. Option.bind (broadcast_key N s) read_decimal = Some old \<and> old < now
        \<longrightarrow> (\<exists>new. Option.bind (broadcast_key N (snd (updateState N now (Some v) None s)))
                      read_decimal = Some new \<and> old < new))"
proof -
  have "Option.bind (broadcast_key N (snd (updateState N now (Some v) None s))) read_decimal
      = Some now" if "Option.bind (broadcast_key N s) read_decimal = Some old" for old
  proof -
    from that obtain m where "localStorage s = Some m"
      by (cases "localStorage s") (simp_all add: broadcast_key_def)
    then show ?thesis
      by (simp add: updateState_value broadcast_key_after read_decimal_toString)
  qed
  moreover have "after_broadcast N now (Some True) s = s"
    by (simp add: after_broadcast_def)
  ultimately show ?thesis
    by (simp add: updateState_value broadcast_key_after read_decimal_toString)
qed

theorem updateState_broadcast_witness:
  "Option.bind (broadcast_key example_names
       (example_tab Map.empty (Some [''_blitz-publicDataUpdated'' \<mapsto> ''5''])))
     read_decimal = Some 5
   \<and> (\<exists>new. Option.bind (broadcast_key example_names
          (snd (updateState example_names 7 (Some emptyPublicData) None
             (example_tab Map.empty (Some [''_blitz-publicDataUpdated'' \<mapsto> ''5''])))))
        read_decimal = Some new \<and> 5 < new)"
proof -
  let ?s = "example_tab Map.empty (Some [''_blitz-publicDataUpdated'' \<mapsto> ''5''])"
  have old: "Option.bind (broadcast_key example_names ?s) read_decimal = Some 5"
    by (simp add: broadcast_key_def eventKey_def example_tab_def example_names_def
          read_decimal_def is_digit_def digit_value_def)
  note step = updateState_broadcast [of example_names 7 emptyPublicData ?s]
  from step have "\<forall>old. Option.bind (broadcast_key example_names ?s) read_decimal = Some old
        \<and> old < 7
      \<longrightarrow> (\<exists>new. Option.bind (broadcast_key example_names
               (snd (updateState example_names 7 (Some emptyPublicData) None ?s)))
             read_decimal = Some new \<and> old < new)"
    by (elim conjE)
  with old have "\<exists>new. Option.bind (broadcast_key example_names
               (snd (updateState example_names 7 (Some emptyPublicData) None ?s)))
             read_decimal = Some new \<and> 5 < new"
    by (elim allE [of _ 5] impE) simp_all
  with old show ?thesis by simp
qed

text \<open>
  C3 as stated fails: a call without options when the clock reads what the key already
  holds (a second call in the same millisecond) leaves the key as it was, and a call
  when the clock reads less (the key was written by a tab whose clock is ahead, or the
  clock was set back) makes it smaller.
\<close>

theorem updateState_broadcast_counterexample:
  "Option.bind (broadcast_key example_names
       (example_tab Map.empty (Some [''_blitz-publicDataUpdated'' \<mapsto> ''5''])))
     read_decimal = Some 5
   \<and> Option.bind (broadcast_key example_names
        (snd (updateState example_names 5 (Some emptyPublicData) None
           (example_tab Map.empty (Some [''_blitz-publicDataUpdated'' \<mapsto> ''5''])))))
      read_decimal = Some 5
   \<and> Option.bind (broadcast_key example_names
        (snd (updateState example_names 3 (Some emptyPublicData) None
           (example_tab Map.empty (Some [''_blitz-publicDataUpdated'' \<mapsto> ''5''])))))
      read_decimal = Some 3"
proof -
  let ?s = "example_tab Map.empty (Some [''_blitz-publicDataUpdated'' \<mapsto> ''5''])"
  have old: "Option.bind (broadcast_key example_names ?s) read_decimal = Some 5"
    by (simp add: broadcast_key_def eventKey_def example_tab_def example_names_def
          read_decimal_def is_digit_def digit_value_def)
  have "broadcast_key example_names
      (snd (updateState example_names now (Some emptyPublicData) None ?s)) = Some (toString now)"
    for now
    by (simp add: updateState_value broadcast_key_after example_tab_def)
  then have "Option.bind (broadcast_key example_names
      (snd (updateState example_names now (Some emptyPublicData) None ?s))) read_decimal = Some now"
    for now
    by (simp add: read_decimal_toString)
  with old show ?thesis by simp
qed

section \<open>The anti-CSRF token and a storage that is not available\<close>

lemma getAntiCSRFToken_unavailable:
  assumes "localStorage s = None" and "readCookie (COOKIE_CSRF_TOKEN N) s = None"
  shows "getAntiCSRFToken N s = Inl StorageError"
  using assms by (simp add: getAntiCSRFToken_def getItem_def)

lemma backupAntiCSRFToken_unavailable:
  assumes "localStorage s = None" and "readCookie (COOKIE_CSRF_TOKEN N) s = Some c" and "c \<noteq> []"
  shows "backupAntiCSRFTokenToLocalStorage N s = (Inl StorageError, s)"
  using assms by (simp add: backupAntiCSRFTokenToLocalStorage_def setItem_def)

text \<open>
  C7 at a tab whose storage is not available. The read of the session token returns
  absent and logs. The read of the anti-CSRF token, with no such cookie, ends with the
  exception of the storage, and so does the backup of an anti-CSRF cookie: neither
  function has the \<^verbatim>\<open>try\<close> that \<open>getToken\<close> has.
\<close>

theorem csrf_storage_exception:
  "getToken example_names (example_tab [''blitz_sPublicDataToken'' \<mapsto> ''A''] None)
     = (None, console_error ''LocalStorage is not available''
               (example_tab [''blitz_sPublicDataToken'' \<mapsto> ''A''] None))
   \<and> getAntiCSRFToken example_names (example_tab Map.empty None) = Inl StorageError
   \<and> backupAntiCSRFTokenToLocalStorage example_names
        (example_tab [''blitz_sAntiCsrfToken'' \<mapsto> ''t''] None)
     = (Inl StorageError, example_tab [''blitz_sAntiCsrfToken'' \<mapsto> ''t''] None)"
  by (simp add: getToken_unavailable getAntiCSRFToken_unavailable
        backupAntiCSRFToken_unavailable [where c = "''t''"]
        example_tab_def example_names_def readCookie_def)

section \<open>The rules of a page behind a layout\<close>

lemma walk_layout_eq:
  "walk_layout layout cur =
     (if authenticate (elem_type layout) \<noteq> None \<or> redirectAuthenticatedTo (elem_type layout) \<noteq> None
      then \<lparr>authenticate = authenticate (elem_type layout),
            redirectAuthenticatedTo = redirectAuthenticatedTo (elem_type layout)\<rparr>
      else \<lparr>authenticate = None, redirectAuthenticatedTo = None\<rparr>)"
  by (induction layout cur rule: walk_layout.induct) (simp split: option.splits)

text \<open>
  C8 at a page without rules whose layout is an element without rules around an
  element that requires authentication. The first element of the chain that carries a
  rule is the inner one, with \<^verbatim>\<open>authenticate = true\<close>; \<open>getAuthValues\<close> returns no rule,
  because its loop reads the type of the outer element in every round.
\<close>

theorem getAuthValues_misses_nested_rules:
  "getAuthValues (Some example_page) () = \<lparr>authenticate = None, redirectAuthenticatedTo = None\<rparr>
   \<and> first_rules_in_chain example_layout
       = \<lparr>authenticate = Some (AuthBool True), redirectAuthenticatedTo = None\<rparr>"
  by (simp add: getAuthValues_def example_page_def example_layout_def)

section \<open>Evaluating the decoder on a given token\<close>







section \<open>The authorization gate\<close>










section \<open>Base64 decoding inverts base64 encoding\<close>

lemma of_char_less_256: "(of_char c :: nat) < 256"
proof -
  have "(of_char c :: nat) mod 256 < 256" by simp
  then show ?thesis by (simp only: of_char_mod_256)
qed

lemma b64_value_char:
  assumes "k < 64"
  shows "b64_value (b64_char k) = Some k"
  using assms by (auto simp: b64_value_def b64_char_def Let_def)

lemma b64_char_not_pad:
  assumes "k < 64"
  shows "b64_char k \<noteq> CHR ''=''"
  using assms by (auto simp: b64_char_def char_of_eq_iff take_bit_eq_mod)

lemma sextet_bounds:
  fixes a b c :: nat
  assumes "a < 256" and "b < 256" and "c < 256"
  shows "a div 4 < 64" and "a mod 4 * 16 < 64" and "a mod 4 * 16 + b div 16 < 64"
    and "b mod 16 * 4 < 64" and "b mod 16 * 4 + c div 64 < 64" and "c mod 64 < 64"
proof -
  have "a mod 4 < 4" and "b mod 16 < 16" by simp_all
  moreover have "b div 16 < 16" and "c div 64 < 4" using assms by simp_all
  ultimately show "a mod 4 * 16 < 64" and "a mod 4 * 16 + b div 16 < 64"
    and "b mod 16 * 4 < 64" and "b mod 16 * 4 + c div 64 < 64"
    by linarith+
  show "a div 4 < 64" using assms by simp
  show "c mod 64 < 64" by simp
qed

lemma bytes_of_sextets:
  fixes a b c :: nat
  assumes "b < 256" and "c < 256"
  shows "a div 4 * 4 + (a mod 4 * 16 + b div 16) div 16 = a"
    and "a div 4 * 4 + a mod 4 * 16 div 16 = a"
    and "(a mod 4 * 16 + b div 16) mod 16 * 16 + (b mod 16 * 4 + c div 64) div 4 = b"
    and "(a mod 4 * 16 + b div 16) mod 16 * 16 + b mod 16 * 4 div 4 = b"
    and "(b mod 16 * 4 + c div 64) mod 4 * 64 + c mod 64 = c"
proof -
  have q: "b div 16 < 16" and r: "c div 64 < 4"
    using assms by simp_all
  show "a div 4 * 4 + (a mod 4 * 16 + b div 16) div 16 = a"
    and "a div 4 * 4 + a mod 4 * 16 div 16 = a"
    using q by simp_all
  show "(a mod 4 * 16 + b div 16) mod 16 * 16 + (b mod 16 * 4 + c div 64) div 4 = b"
    and "(a mod 4 * 16 + b div 16) mod 16 * 16 + b mod 16 * 4 div 4 = b"
    using q r by simp_all
  show "(b mod 16 * 4 + c div 64) mod 4 * 64 + c mod 64 = c"
    using r by simp
qed

lemma small_quotients:
  fixes b :: nat
  assumes "b < 256"
  shows "b div 16 < 16" and "b div 64 < 4"
  using assms by simp_all

lemmas of_char_quotients = small_quotients [OF of_char_less_256]

lemma fromBase64_toBase64: "fromBase64 (toBase64 s) = Some s"
proof (induction s rule: toBase64.induct)
  case 1
  show ?case by simp
next
  case (2 a)
  note bounds = sextet_bounds [OF of_char_less_256 [of a] of_char_less_256 [of a]
      of_char_less_256 [of a]]
  show ?case
    by (simp add: b64_value_char b64_char_not_pad bounds
          bytes_of_sextets [OF of_char_less_256 of_char_less_256] of_char_quotients)
next
  case (3 a b)
  note bounds = sextet_bounds [OF of_char_less_256 [of a] of_char_less_256 [of b]
      of_char_less_256 [of b]]
  show ?case
    by (simp add: b64_value_char b64_char_not_pad bounds
          bytes_of_sextets [OF of_char_less_256 of_char_less_256] of_char_quotients)
next
  case (4 a b c rest)
  note bounds = sextet_bounds [OF of_char_less_256 [of a] of_char_less_256 [of b]
      of_char_less_256 [of c]]
  show ?case
    by (simp add: "4.IH" b64_value_char b64_char_not_pad bounds
          bytes_of_sextets [OF of_char_less_256 of_char_less_256] of_char_quotients)
qed

lemma toBase64_nonempty:
  assumes "s \<noteq> []"
  shows "toBase64 s \<noteq> []"
  using assms by (cases s rule: toBase64.cases) simp_all

section \<open>JSON.parse inverts JSON.stringify\<close>

lemma hex_value_char:
  assumes "d < 16"
  shows "hex_value (hex_char d) = Some d"
  using assms by (auto simp: hex_value_def hex_char_def Let_def)

lemma parse_string_escape:
  "parse_string (escape_char c @ cs) =
     (case parse_string cs of None \<Rightarrow> None | Some (s, rest) \<Rightarrow> Some (c # s, rest))"
proof -
  consider (short) "c \<in> {CHR ''\"'', CHR 0x5C, CHR 0x08, CHR 0x0C, CHR 0x0A, CHR 0x0D, CHR 0x09}"
    | (control) "c \<notin> {CHR ''\"'', CHR 0x5C, CHR 0x08, CHR 0x0C, CHR 0x0A, CHR 0x0D, CHR 0x09}"
        "(of_char c :: nat) < 32"
    | (plain) "c \<notin> {CHR ''\"'', CHR 0x5C, CHR 0x08, CHR 0x0C, CHR 0x0A, CHR 0x0D, CHR 0x09}"
        "\<not> (of_char c :: nat) < 32"
    by blast
  then show ?thesis
  proof cases
    case short
    then show ?thesis
      by (auto simp: escape_char_def unescape_def split: option.splits)
  next
    case control
    have "hex_value (CHR ''0'') = Some 0"
      by (simp add: hex_value_def)
    moreover have "hex_value (hex_char (of_char c div 16)) = Some (of_char c div 16)"
      and "hex_value (hex_char (of_char c mod 16)) = Some (of_char c mod 16)"
      using control(2) by (simp_all add: hex_value_char)
    ultimately have "hex4 (CHR ''0'') (CHR ''0'') (hex_char (of_char c div 16))
        (hex_char (of_char c mod 16)) = Some (of_char c)"
      by (simp add: hex4_def)
    with control show ?thesis
      by (simp add: escape_char_def split: option.splits)
  next
    case plain
    then show ?thesis
      by (simp add: escape_char_def split: option.splits)
  qed
qed

lemma parse_string_quote:
  "parse_string (concat (map escape_char s) @ CHR ''\"'' # rest) = Some (s, rest)"
  by (induction s) (simp_all add: parse_string_escape)

lemma toString_Cons: "\<exists>c cs. toString n = c # cs \<and> is_digit c \<and> (0 < n \<longrightarrow> c \<noteq> CHR ''0'')"
proof (induction n rule: toString.induct)
  case (1 n)
  show ?case
  proof (cases "n < 10")
    case True
    then have "toString n = [digit_char n]"
      by (subst toString.simps) simp
    moreover have "0 < n \<longrightarrow> digit_char n \<noteq> CHR ''0''"
      using True by (auto simp: digit_char_def char_of_eq_iff take_bit_eq_mod)
    ultimately show ?thesis
      using True by (simp add: digit_char_digit)
  next
    case False
    then have "0 < n div 10" by simp
    with False "1.IH" obtain c cs
      where "toString (n div 10) = c # cs" and "is_digit c" and "c \<noteq> CHR ''0''"
      by auto
    moreover have "toString n = toString (n div 10) @ [digit_char (n mod 10)]"
      using False by (subst toString.simps) simp
    ultimately show ?thesis by simp
  qed
qed

lemma toString_zero: "toString 0 = ''0''"
  by (subst toString.simps) (simp add: digit_char_def char_of_eq_iff)

lemma number_end_digits:
  assumes "number_end rest"
  shows "rest = [] \<or> \<not> is_digit (hd rest)"
  using assms by (cases rest) (simp_all add: number_end_def)

lemma parse_nat_toString:
  assumes "number_end rest"
  shows "parse_nat (toString n @ rest) = Some (n, rest)"
proof (cases "n = 0")
  case True
  with assms show ?thesis
    by (cases rest) (simp_all add: toString_zero parse_nat_def is_digit_def number_end_def)
next
  case False
  then obtain c cs where c: "toString n = c # cs" "is_digit c" "c \<noteq> CHR ''0''"
    using toString_Cons [of n] by auto
  have "parse_digits 0 (c # cs @ rest) = (n, rest)"
    using parse_digits_toString [OF number_end_digits [OF assms], of n] c(1) by simp
  with c assms show ?thesis
    by (cases rest) (simp_all add: parse_nat_def number_end_def del: parse_digits.simps)
qed

lemma skip_ws_Cons:
  assumes "\<not> is_ws c"
  shows "skip_ws (c # cs) = c # cs"
  using assms by (simp add: skip_ws_def)

lemma digit_is_plain:
  assumes "is_digit c"
  shows "\<not> is_ws c" and "c \<noteq> CHR '']''" and "c \<noteq> CHR ''}''" and "c \<noteq> CHR ''n''"
    and "c \<noteq> CHR ''t''" and "c \<noteq> CHR ''f''" and "c \<noteq> CHR ''\"''" and "c \<noteq> CHR ''[''"
    and "c \<noteq> CHR ''{''" and "c \<noteq> CHR ''-''"
  using assms by (auto simp: is_digit_def is_ws_def)

lemma JSON_stringify_Cons:
  "\<exists>c cs. JSON_stringify v = c # cs \<and> \<not> is_ws c \<and> c \<noteq> CHR '']'' \<and> c \<noteq> CHR ''}''"
proof (cases v)
  case (JNum i)
  obtain c cs where "toString (nat \<bar>i\<bar>) = c # cs" and "is_digit c"
    using toString_Cons by blast
  then show ?thesis
    using JNum digit_is_plain(1-3) [of c]
    by (cases "i < 0") (auto simp: show_int_def is_ws_def abs_if)
qed (auto simp: is_ws_def quote_def)

lemma stringify_elements_Cons:
  assumes "xs \<noteq> []"
  shows "\<exists>c cs. stringify_elements xs = c # cs \<and> \<not> is_ws c \<and> c \<noteq> CHR '']''"
proof -
  obtain x ys where xs: "xs = x # ys"
    using assms by (cases xs) auto
  obtain c cs where "JSON_stringify x = c # cs" and "\<not> is_ws c" and "c \<noteq> CHR '']''"
    using JSON_stringify_Cons by blast
  then show ?thesis
    unfolding xs by (cases ys) auto
qed

lemma stringify_members_Cons:
  assumes "ms \<noteq> []"
  shows "\<exists>cs. stringify_members ms = CHR ''\"'' # cs"
proof -
  obtain k v ns where ms: "ms = (k, v) # ns"
    using assms by (cases ms) auto
  show ?thesis
    unfolding ms by (cases ns) (auto simp: quote_def)
qed

lemma number_end_comma: "number_end (CHR '','' # cs)"
  by (simp add: number_end_def is_digit_def)

lemma number_end_bracket: "number_end (CHR '']'' # cs)"
  by (simp add: number_end_def is_digit_def)

lemma number_end_brace: "number_end (CHR ''}'' # cs)"
  by (simp add: number_end_def is_digit_def)

lemma parse_value_null: "parse_value (Suc f) (''null'' @ rest) = Some (JNull, rest)"
  by (simp add: skip_ws_def is_ws_def)

lemma parse_value_bool:
  "parse_value (Suc f) (JSON_stringify (JBool b) @ rest) = Some (JBool b, rest)"
  by (simp add: skip_ws_def is_ws_def)

lemma parse_value_num:
  assumes "number_end rest"
  shows "parse_value (Suc f) (show_int i @ rest) = Some (JNum i, rest)"
proof (cases "i < 0")
  case True
  then show ?thesis
    by (simp add: show_int_def skip_ws_def is_ws_def parse_nat_toString [OF assms])
next
  case False
  obtain c cs where c: "toString (nat i) = c # cs" and d: "is_digit c"
    using toString_Cons by blast
  have "parse_nat (c # cs @ rest) = Some (nat i, rest)"
    using parse_nat_toString [OF assms, of "nat i"] c by simp
  with False c show ?thesis
    by (simp add: show_int_def skip_ws_Cons digit_is_plain [OF d])
qed

lemma parse_value_str: "parse_value (Suc f) (quote s @ rest) = Some (JStr s, rest)"
  by (simp add: quote_def skip_ws_def is_ws_def parse_string_quote)

lemma parse_value_empty_array: "parse_value (Suc f) (''[]'' @ rest) = Some (JArr [], rest)"
  by (simp add: skip_ws_def is_ws_def)

lemma parse_value_empty_object: "parse_value (Suc f) (''{}'' @ rest) = Some (JObj [], rest)"
  by (simp add: skip_ws_def is_ws_def)

lemma parse_value_array:
  assumes "xs \<noteq> []"
    and "parse_elements f (stringify_elements xs @ CHR '']'' # rest) = Some (xs, rest)"
  shows "parse_value (Suc f) (CHR ''['' # stringify_elements xs @ CHR '']'' # rest)
         = Some (JArr xs, rest)"
proof -
  obtain c cs where "stringify_elements xs = c # cs" and "\<not> is_ws c" and "c \<noteq> CHR '']''"
    using stringify_elements_Cons [OF assms(1)] by blast
  with assms(2) show ?thesis
    by (simp add: skip_ws_def is_ws_def)
qed

lemma parse_value_object:
  assumes "ms \<noteq> []"
    and "parse_members f (stringify_members ms @ CHR ''}'' # rest) = Some (ms, rest)"
  shows "parse_value (Suc f) (CHR ''{'' # stringify_members ms @ CHR ''}'' # rest)
         = Some (JObj ms, rest)"
proof -
  obtain cs where "stringify_members ms = CHR ''\"'' # cs"
    using stringify_members_Cons [OF assms(1)] by blast
  with assms(2) show ?thesis
    by (simp add: skip_ws_def is_ws_def)
qed

lemma parse_elements_last:
  assumes "parse_value f (text @ CHR '']'' # rest) = Some (x, CHR '']'' # rest)"
  shows "parse_elements (Suc f) (text @ CHR '']'' # rest) = Some ([x], rest)"
  using assms by (simp add: skip_ws_def is_ws_def)

lemma parse_elements_next:
  assumes "parse_value f (text @ CHR '','' # others) = Some (x, CHR '','' # others)"
    and "parse_elements f others = Some (xs, rest)"
  shows "parse_elements (Suc f) (text @ CHR '','' # others) = Some (x # xs, rest)"
  using assms by (simp add: skip_ws_def is_ws_def)

lemma parse_members_last:
  assumes "parse_value f (text @ CHR ''}'' # rest) = Some (v, CHR ''}'' # rest)"
  shows "parse_members (Suc f) (quote k @ CHR '':'' # text @ CHR ''}'' # rest)
         = Some ([(k, v)], rest)"
  using assms by (simp add: quote_def skip_ws_def is_ws_def parse_string_quote)

lemma parse_members_next:
  assumes "parse_value f (text @ CHR '','' # others) = Some (v, CHR '','' # others)"
    and "parse_members f others = Some (ms, rest)"
  shows "parse_members (Suc f) (quote k @ CHR '':'' # text @ CHR '','' # others)
         = Some ((k, v) # ms, rest)"
  using assms by (simp add: quote_def skip_ws_def is_ws_def parse_string_quote)

text \<open>
  The parser reads back what \<open>JSON_stringify\<close> wrote, with any fuel of at least twice the
  length of the text, and leaves what follows the text.
\<close>

lemma parse_stringify:
  "2 * length (JSON_stringify v) \<le> f \<Longrightarrow> number_end rest
     \<Longrightarrow> parse_value f (JSON_stringify v @ rest) = Some (v, rest)"
  "xs \<noteq> [] \<Longrightarrow> 2 * length (stringify_elements xs) + 1 \<le> f
     \<Longrightarrow> parse_elements f (stringify_elements xs @ CHR '']'' # rest) = Some (xs, rest)"
  "ms \<noteq> [] \<Longrightarrow> 2 * length (stringify_members ms) + 1 \<le> f
     \<Longrightarrow> parse_members f (stringify_members ms @ CHR ''}'' # rest) = Some (ms, rest)"
proof (induction v and xs and ms arbitrary: f rest and f rest and f rest
    rule: JSON_stringify_stringify_elements_stringify_members.induct)
  case 1
  then obtain f' where "f = Suc f'" by (cases f) auto
  then show ?case using parse_value_null by simp
next
  case (2 b)
  then obtain f' where "f = Suc f'" by (cases f) (auto split: if_splits)
  then show ?case using parse_value_bool by simp
next
  case (3 i)
  obtain c cs where "toString (nat \<bar>i\<bar>) = c # cs"
    using toString_Cons by blast
  then have "show_int i \<noteq> []"
    by (auto simp: show_int_def abs_if)
  with 3 obtain f' where "f = Suc f'" by (cases f) auto
  with 3 show ?case using parse_value_num by simp
next
  case (4 s)
  then obtain f' where "f = Suc f'" by (cases f) (auto simp: quote_def)
  then show ?case using parse_value_str by simp
next
  case (5 xs)
  from "5.prems" obtain f' where f: "f = Suc f'"
    and enough: "2 * length (stringify_elements xs) + 1 \<le> f'"
    by (cases f) auto
  show ?case
  proof (cases "xs = []")
    case True
    with f show ?thesis using parse_value_empty_array by simp
  next
    case False
    have "parse_elements f' (stringify_elements xs @ CHR '']'' # rest) = Some (xs, rest)"
      using False enough by (rule "5.IH")
    with False f show ?thesis using parse_value_array by simp
  qed
next
  case (6 ms)
  from "6.prems" obtain f' where f: "f = Suc f'"
    and enough: "2 * length (stringify_members ms) + 1 \<le> f'"
    by (cases f) auto
  show ?case
  proof (cases "ms = []")
    case True
    with f show ?thesis using parse_value_empty_object by simp
  next
    case False
    have "parse_members f' (stringify_members ms @ CHR ''}'' # rest) = Some (ms, rest)"
      using False enough by (rule "6.IH")
    with False f show ?thesis using parse_value_object by simp
  qed
next
  case 7
  then show ?case by simp
next
  case (8 x)
  from "8.prems" obtain f' where f: "f = Suc f'" and enough: "2 * length (JSON_stringify x) \<le> f'"
    by (cases f) auto
  have "parse_value f' (JSON_stringify x @ CHR '']'' # rest) = Some (x, CHR '']'' # rest)"
    using enough number_end_bracket by (rule "8.IH")
  then have "parse_elements (Suc f') (JSON_stringify x @ CHR '']'' # rest) = Some ([x], rest)"
    by (rule parse_elements_last)
  then show ?case
    unfolding f by simp
next
  case (9 x y ys)
  from "9.prems" obtain f' where f: "f = Suc f'"
    and enough: "2 * length (JSON_stringify x) \<le> f'"
      "2 * length (stringify_elements (y # ys)) + 1 \<le> f'"
    by (cases f) auto
  let ?others = "stringify_elements (y # ys) @ CHR '']'' # rest"
  have "parse_value f' (JSON_stringify x @ CHR '','' # ?others) = Some (x, CHR '','' # ?others)"
    using enough(1) number_end_comma by (rule "9.IH"(1))
  moreover have "parse_elements f' ?others = Some (y # ys, rest)"
    using enough(2) by (intro "9.IH"(2)) simp_all
  ultimately have "parse_elements (Suc f') (JSON_stringify x @ CHR '','' # ?others)
      = Some (x # y # ys, rest)"
    by (rule parse_elements_next)
  then show ?case
    unfolding f by simp
next
  case 10
  then show ?case by simp
next
  case (11 k v)
  from "11.prems" obtain f' where f: "f = Suc f'" and enough: "2 * length (JSON_stringify v) \<le> f'"
    by (cases f) auto
  have "parse_value f' (JSON_stringify v @ CHR ''}'' # rest) = Some (v, CHR ''}'' # rest)"
    using enough number_end_brace by (rule "11.IH")
  then have "parse_members (Suc f') (quote k @ CHR '':'' # JSON_stringify v @ CHR ''}'' # rest)
      = Some ([(k, v)], rest)"
    by (rule parse_members_last)
  then show ?case
    unfolding f by simp
next
  case (12 k v m ms)
  from "12.prems" obtain f' where f: "f = Suc f'"
    and enough: "2 * length (JSON_stringify v) \<le> f'"
      "2 * length (stringify_members (m # ms)) + 1 \<le> f'"
    by (cases f) auto
  let ?others = "stringify_members (m # ms) @ CHR ''}'' # rest"
  have "parse_value f' (JSON_stringify v @ CHR '','' # ?others) = Some (v, CHR '','' # ?others)"
    using enough(1) number_end_comma by (rule "12.IH"(1))
  moreover have "parse_members f' ?others = Some (m # ms, rest)"
    using enough(2) by (intro "12.IH"(2)) simp_all
  ultimately have "parse_members (Suc f')
      (quote k @ CHR '':'' # JSON_stringify v @ CHR '','' # ?others) = Some ((k, v) # m # ms, rest)"
    by (rule parse_members_next)
  then show ?case
    unfolding f by simp
qed

lemma JSON_stringify_nonempty: "JSON_stringify v \<noteq> []"
  using JSON_stringify_Cons [of v] by auto

lemma JSON_parse_stringify: "JSON_parse (JSON_stringify v) = Some v"
proof -
  have "parse_value (2 * length (JSON_stringify v) + 2) (JSON_stringify v @ [])
      = Some (v, [])"
    by (rule parse_stringify(1)) (simp_all add: number_end_def)
  then show ?thesis
    by (simp add: JSON_parse_def skip_ws_def)
qed

section \<open>Decoding inverts encoding\<close>

text \<open>
  C5. For every record of public data \<open>pd\<close>, decoding the base64 text of the JSON text
  of \<open>pd\<close> returns \<open>pd\<close>.
\<close>

theorem parsePublicDataToken_encodePublicData:
  "parsePublicDataToken (encodePublicData pd) = Inr pd"
proof -
  have "toBase64 (JSON_stringify pd) \<noteq> []"
    using JSON_stringify_nonempty by (rule toBase64_nonempty)
  then show ?thesis
    by (simp add: parsePublicDataToken_def encodePublicData_def fromBase64_toBase64
          JSON_parse_stringify)
qed

section \<open>The fuel of the parser\<close>

lemma skip_ws_shorter:
  assumes "skip_ws cs = c # r"
  shows "length r < length cs"
proof -
  have "length (skip_ws cs) \<le> length cs"
    by (simp add: skip_ws_def length_dropWhile_le)
  with assms show ?thesis by simp
qed

lemma parse_string_shorter:
  assumes "parse_string cs = Some (s, r)"
  shows "length r < length cs"
  using assms
proof (induction cs arbitrary: s r rule: length_induct)
  case (1 cs)
  then obtain c cs' where cs: "cs = c # cs'"
    by (cases cs) auto
  have IH: "parse_string xs = Some (s', r') \<Longrightarrow> length r' < length xs"
    if "length xs < length cs" for xs s' r'
    using "1.IH" that by blast
  from "1.prems" show ?case
    unfolding cs
    by (auto simp: cs split: if_splits list.splits option.splits dest!: IH [rotated])
qed

lemma parse_digits_shorter: "length (snd (parse_digits acc cs)) \<le> length cs"
  by (induction cs arbitrary: acc) (auto intro: le_SucI)

lemma parse_nat_shorter:
  assumes "parse_nat cs = Some (n, r)"
  shows "length r < length cs"
proof -
  obtain c cs' where cs: "cs = c # cs'"
    using assms by (cases cs) (auto simp: parse_nat_def)
  have digit: "is_digit c"
    using assms by (auto simp: parse_nat_def cs split: if_splits)
  have "length (snd (parse_digits (0 * 10 + digit_value c) cs')) \<le> length cs'"
    by (rule parse_digits_shorter)
  then have "length (snd (parse_digits 0 cs)) < length cs"
    using digit by (simp add: cs)
  moreover have "r = cs' \<or> r = snd (parse_digits 0 cs)"
    using assms digit
    by (auto simp: parse_nat_def cs split: if_splits prod.splits list.splits)
  ultimately show ?thesis
    by (auto simp: cs)
qed

lemma parse_value_step_shorter:
  assumes elements: "\<And>cs xs r. parse_elements f cs = Some (xs, r) \<Longrightarrow> length r < length cs"
    and members: "\<And>cs ms r. parse_members f cs = Some (ms, r) \<Longrightarrow> length r < length cs"
    and parsed: "parse_value (Suc f) cs = Some (v, r)"
  shows "length r < length cs"
proof -
  obtain c t where sk: "skip_ws cs = c # t"
    using parsed by (cases "skip_ws cs") auto
  note short = skip_ws_shorter [OF sk]
  consider "c = CHR ''n''" | "c = CHR ''t''" | "c = CHR ''f''" | "c = CHR ''\"''"
    | "c = CHR ''[''" | "c = CHR ''{''" | "c = CHR ''-''"
    | "c \<notin> {CHR ''n'', CHR ''t'', CHR ''f'', CHR ''\"'', CHR ''['', CHR ''{'', CHR ''-''}"
    by blast
  then have "length r \<le> length t"
  proof cases
    case 1
    with parsed sk show ?thesis
      by (auto split: list.splits if_splits)
  next
    case 2
    with parsed sk show ?thesis
      by (auto split: list.splits if_splits)
  next
    case 3
    with parsed sk show ?thesis
      by (auto split: list.splits if_splits)
  next
    case 4
    with parsed sk show ?thesis
      by (auto split: option.splits dest: parse_string_shorter)
  next
    case 5
    with parsed sk show ?thesis
      by (auto split: list.splits if_splits option.splits
            dest: elements skip_ws_shorter less_imp_le)
  next
    case 6
    with parsed sk show ?thesis
      by (auto split: list.splits if_splits option.splits
            dest: members skip_ws_shorter less_imp_le)
  next
    case 7
    with parsed sk show ?thesis
      by (auto split: option.splits dest: parse_nat_shorter)
  next
    case 8
    with parsed sk have "\<exists>n. parse_nat (c # t) = Some (n, r)"
      by (auto split: option.splits)
    then show ?thesis
      by (auto dest: parse_nat_shorter)
  qed
  with short show ?thesis by simp
qed

lemma parse_elements_step_shorter:
  assumes vals: "\<And>cs v r. parse_value f cs = Some (v, r) \<Longrightarrow> length r < length cs"
    and elements: "\<And>cs xs r. parse_elements f cs = Some (xs, r) \<Longrightarrow> length r < length cs"
    and parsed: "parse_elements (Suc f) cs = Some (xs, r)"
  shows "length r < length cs"
proof -
  obtain x t where pv: "parse_value f cs = Some (x, t)"
    using parsed by (cases "parse_value f cs") auto
  obtain c t' where sk: "skip_ws t = c # t'"
    using parsed pv by (cases "skip_ws t") auto
  have "length r \<le> length t'"
    using parsed pv sk by (auto split: if_splits option.splits dest: elements less_imp_le)
  with vals [OF pv] skip_ws_shorter [OF sk] show ?thesis by simp
qed

lemma parse_members_step_shorter:
  assumes vals: "\<And>cs v r. parse_value f cs = Some (v, r) \<Longrightarrow> length r < length cs"
    and members: "\<And>cs ms r. parse_members f cs = Some (ms, r) \<Longrightarrow> length r < length cs"
    and parsed: "parse_members (Suc f) cs = Some (ms, r)"
  shows "length r < length cs"
proof -
  obtain q t where sk: "skip_ws cs = q # t" and q: "q = CHR ''\"''"
    using parsed by (cases "skip_ws cs") (auto split: if_splits)
  obtain k t1 where ps: "parse_string t = Some (k, t1)"
    using parsed sk q by (cases "parse_string t") auto
  obtain colon t2 where sk1: "skip_ws t1 = colon # t2" and colon: "colon = CHR '':''"
    using parsed sk q ps by (cases "skip_ws t1") (auto split: if_splits)
  obtain v t3 where pv: "parse_value f t2 = Some (v, t3)"
    using parsed sk q ps sk1 colon by (cases "parse_value f t2") auto
  obtain c t4 where sk3: "skip_ws t3 = c # t4"
    using parsed sk q ps sk1 colon pv by (cases "skip_ws t3") auto
  have "length r \<le> length t4"
    using parsed sk q ps sk1 colon pv sk3
    by (auto split: if_splits option.splits dest: members less_imp_le)
  with skip_ws_shorter [OF sk] parse_string_shorter [OF ps] skip_ws_shorter [OF sk1]
    vals [OF pv] skip_ws_shorter [OF sk3]
  show ?thesis by simp
qed

lemma parse_shorter:
  "(\<forall>cs v r. parse_value f cs = Some (v, r) \<longrightarrow> length r < length cs)
   \<and> (\<forall>cs xs r. parse_elements f cs = Some (xs, r) \<longrightarrow> length r < length cs)
   \<and> (\<forall>cs ms r. parse_members f cs = Some (ms, r) \<longrightarrow> length r < length cs)"
proof (induction f)
  case 0
  show ?case by simp
next
  case (Suc f)
  then show ?case
    by (blast intro: parse_value_step_shorter parse_elements_step_shorter
          parse_members_step_shorter)
qed

lemma parse_value_fuel_step:
  assumes elements: "\<And>t. length t < length cs \<Longrightarrow> parse_elements (Suc f) t = parse_elements f t"
    and members: "\<And>t. length t < length cs \<Longrightarrow> parse_members (Suc f) t = parse_members f t"
  shows "parse_value (Suc (Suc f)) cs = parse_value (Suc f) cs"
proof (cases "skip_ws cs")
  case Nil
  then show ?thesis by simp
next
  case (Cons c t)
  note short = skip_ws_shorter [OF Cons]
  note unfold = parse_value.simps(2) [of "Suc f" cs] parse_value.simps(2) [of f cs]
  consider "c = CHR ''[''" | "c = CHR ''{''" | "c \<noteq> CHR ''[''" "c \<noteq> CHR ''{''"
    by blast
  then show ?thesis
  proof cases
    case 1
    then show ?thesis
      unfolding unfold Cons
      by (cases "skip_ws t") (simp_all add: elements [OF short] del: parse_elements.simps)
  next
    case 2
    then show ?thesis
      unfolding unfold Cons
      by (cases "skip_ws t") (simp_all add: members [OF short] del: parse_members.simps)
  next
    case 3
    then show ?thesis
      unfolding unfold Cons by simp
  qed
qed

lemma parse_elements_fuel_step:
  assumes vals: "parse_value (Suc f) cs = parse_value f cs"
    and elements: "\<And>t. length t < length cs \<Longrightarrow> parse_elements (Suc f) t = parse_elements f t"
  shows "parse_elements (Suc (Suc f)) cs = parse_elements (Suc f) cs"
proof (cases "parse_value f cs")
  case None
  then show ?thesis
    unfolding parse_elements.simps(2) [of "Suc f" cs] parse_elements.simps(2) [of f cs] vals
    by simp
next
  case (Some result)
  then obtain x t where pv: "parse_value f cs = Some (x, t)"
    by (cases result) simp
  have t: "length t < length cs"
    using parse_shorter pv by blast
  show ?thesis
  proof (cases "skip_ws t")
    case Nil
    then show ?thesis
      unfolding parse_elements.simps(2) [of "Suc f" cs] parse_elements.simps(2) [of f cs] vals pv
      by simp
  next
    case (Cons c t')
    have "length t' < length cs"
      using skip_ws_shorter [OF Cons] t by simp
    then have "parse_elements (Suc f) t' = parse_elements f t'"
      by (rule elements)
    then show ?thesis
      unfolding parse_elements.simps(2) [of "Suc f" cs] parse_elements.simps(2) [of f cs] vals pv
      by (simp add: Cons del: parse_elements.simps)
  qed
qed

lemma parse_members_fuel_step:
  assumes vals: "\<And>t. length t < length cs \<Longrightarrow> parse_value (Suc f) t = parse_value f t"
    and members: "\<And>t. length t < length cs \<Longrightarrow> parse_members (Suc f) t = parse_members f t"
  shows "parse_members (Suc (Suc f)) cs = parse_members (Suc f) cs"
proof -
  note unfold = parse_members.simps(2) [of "Suc f" cs] parse_members.simps(2) [of f cs]
  show ?thesis
  proof (cases "skip_ws cs")
    case Nil
    then show ?thesis unfolding unfold by simp
  next
    case sk: (Cons q t)
    show ?thesis
    proof (cases "parse_string t")
      case None
      then show ?thesis unfolding unfold sk by simp
    next
      case (Some result)
      then obtain k t1 where ps: "parse_string t = Some (k, t1)"
        by (cases result) simp
      have t1: "length t1 < length cs"
        using skip_ws_shorter [OF sk] parse_string_shorter [OF ps] by simp
      show ?thesis
      proof (cases "skip_ws t1")
        case Nil
        then show ?thesis unfolding unfold sk by (simp add: ps)
      next
        case sk1: (Cons colon t2)
        have t2: "length t2 < length cs"
          using skip_ws_shorter [OF sk1] t1 by simp
        note pv = vals [OF t2]
        show ?thesis
        proof (cases "parse_value f t2")
          case None
          then show ?thesis
            unfolding unfold sk by (simp add: ps sk1 pv del: parse_value.simps)
        next
          case (Some parsed)
          then obtain v t3 where v: "parse_value f t2 = Some (v, t3)"
            by (cases parsed) simp
          have t3: "length t3 < length cs"
            using parse_shorter v t2 by (meson less_trans)
          show ?thesis
          proof (cases "skip_ws t3")
            case Nil
            then show ?thesis
              unfolding unfold sk by (simp add: ps sk1 pv v del: parse_value.simps)
          next
            case sk3: (Cons c t4)
            have "length t4 < length cs"
              using skip_ws_shorter [OF sk3] t3 by simp
            then have "parse_members (Suc f) t4 = parse_members f t4"
              by (rule members)
            then show ?thesis
              unfolding unfold sk
              by (simp add: ps sk1 pv v sk3 del: parse_value.simps parse_members.simps)
          qed
        qed
      qed
    qed
  qed
qed

text \<open>
  Fuel beyond twice the length of the text changes nothing: where the parser fails, the
  text is at fault.
\<close>

lemma parse_fuel_Suc:
  "(\<forall>cs. 2 * length cs + 1 \<le> f \<longrightarrow> parse_value (Suc f) cs = parse_value f cs)
   \<and> (\<forall>cs. 2 * length cs + 2 \<le> f \<longrightarrow> parse_elements (Suc f) cs = parse_elements f cs)
   \<and> (\<forall>cs. 2 * length cs + 2 \<le> f \<longrightarrow> parse_members (Suc f) cs = parse_members f cs)"
proof (induction f)
  case 0
  show ?case by simp
next
  case (Suc f)
  have "parse_value (Suc (Suc f)) cs = parse_value (Suc f) cs" if "2 * length cs + 1 \<le> Suc f" for cs
  proof (rule parse_value_fuel_step)
    fix t :: string
    assume "length t < length cs"
    with that have "2 * length t + 2 \<le> f" by simp
    with Suc show "parse_elements (Suc f) t = parse_elements f t"
      and "parse_members (Suc f) t = parse_members f t"
      by simp_all
  qed
  moreover
  have "parse_elements (Suc (Suc f)) cs = parse_elements (Suc f) cs"
    if "2 * length cs + 2 \<le> Suc f" for cs
  proof (rule parse_elements_fuel_step)
    from that have "2 * length cs + 1 \<le> f" by simp
    with Suc show "parse_value (Suc f) cs = parse_value f cs" by simp
  next
    fix t :: string
    assume "length t < length cs"
    with that have "2 * length t + 2 \<le> f" by simp
    with Suc show "parse_elements (Suc f) t = parse_elements f t" by simp
  qed
  moreover
  have "parse_members (Suc (Suc f)) cs = parse_members (Suc f) cs"
    if "2 * length cs + 2 \<le> Suc f" for cs
  proof (rule parse_members_fuel_step)
    fix t :: string
    assume "length t < length cs"
    with that have "2 * length t + 2 \<le> f" by simp
    with Suc show "parse_value (Suc f) t = parse_value f t"
      and "parse_members (Suc f) t = parse_members f t"
      by simp_all
  qed
  ultimately show ?case by blast
qed

lemma parse_value_more_fuel:
  assumes "2 * length cs + 1 \<le> f"
  shows "parse_value (f + k) cs = parse_value f cs"
proof (induction k)
  case 0
  show ?case by simp
next
  case (Suc k)
  have "parse_value (Suc (f + k)) cs = parse_value (f + k) cs"
    using parse_fuel_Suc [of "f + k"] assms by simp
  with Suc show ?case by simp
qed

lemma JSON_parse_any_fuel:
  assumes "2 * length text + 2 \<le> f"
  shows "JSON_parse text =
     (case parse_value f text of
        None \<Rightarrow> None
      | Some (v, rest) \<Rightarrow> if skip_ws rest = [] then Some v else None)"
proof -
  obtain k where "f = 2 * length text + 2 + k"
    using assms le_iff_add by blast
  moreover have "parse_value (2 * length text + 2 + k) text
      = parse_value (2 * length text + 2) text"
    by (rule parse_value_more_fuel) simp
  ultimately have "parse_value f text = parse_value (2 * length text + 2) text"
    by (simp only:)
  then show ?thesis
    by (simp only: JSON_parse_def)
qed

end
